theory Spec2Isabelle
  imports Main "HOL-Library.Char_ord" "HOL-Library.List_Lexorder"
begin

section \<open>Data model\<close>

text \<open>
  The development follows \<^verbatim>\<open>libs/streamlink/session/plugins.py\<close> (class
  \<^verbatim>\<open>StreamlinkPlugins\<close>) and \<^verbatim>\<open>libs/streamlink/stream/http.py\<close> (class
  \<^verbatim>\<open>HTTPStream\<close>).

  Exceptions of the Python code are values; \<open>Inl e\<close> stands for "raises \<open>e\<close>".
  \<open>ModuleNotFoundError\<close> is a subclass of \<open>ImportError\<close> in Python, all the
  other classes listed here are unrelated to it.
\<close>

datatype exception =
    ImportError | ModuleNotFoundError | SyntaxError | NameError | TypeError | KeyError
  | StreamError

fun is_ImportError :: "exception \<Rightarrow> bool" where
  "is_ImportError ImportError = True"
| "is_ImportError ModuleNotFoundError = True"
| "is_ImportError _ = False"

text \<open>
  Modelled from the spec: the classes \<^verbatim>\<open>Matcher\<close>, \<^verbatim>\<open>Matchers\<close> and \<^verbatim>\<open>Plugin\<close> of
  \<^verbatim>\<open>streamlink.plugin.plugin\<close> are imported by the source but are not part of it. A matcher
  carries a compiled pattern (of an arbitrary type \<open>'p\<close>) and a priority; the matchers of a
  handler are an ordered sequence; the attribute \<^verbatim>\<open>Plugin.matchers\<close> is either \<^verbatim>\<open>None\<close> or
  such a sequence. \<open>class_id\<close> is the identity of the handler class, so that two classes
  with equal matchers are still two handlers.
\<close>

record 'p matcher =
  pattern :: 'p
  priority :: int

record 'p plugin =
  class_id :: string
  matchers :: "'p matcher list option"

text \<open>
  A Python \<^verbatim>\<open>dict\<close> keeps its items in insertion order and holds every key once: an
  association list whose keys are distinct. The registry \<^verbatim>\<open>self._plugins\<close> is such a dict
  from names to handler classes.
\<close>

type_synonym ('k, 'v) dict = "('k \<times> 'v) list"

type_synonym 'p registry = "(string, 'p plugin) dict"

definition keys :: "('k, 'v) dict \<Rightarrow> 'k list" where
  "keys d = map fst d"

text \<open>\<^verbatim>\<open>d[k]\<close>: raises \<open>KeyError\<close> on a missing key.\<close>

definition dict_getitem :: "('k, 'v) dict \<Rightarrow> 'k \<Rightarrow> exception + 'v" where
  "dict_getitem d k = (case map_of d k of None \<Rightarrow> Inl KeyError | Some v \<Rightarrow> Inr v)"

text \<open>\<^verbatim>\<open>d[k] = v\<close>: an existing key keeps its place and gets the new value, a new key goes
  to the end.\<close>

fun dict_setitem :: "('k, 'v) dict \<Rightarrow> 'k \<Rightarrow> 'v \<Rightarrow> ('k, 'v) dict" where
  "dict_setitem [] k v = [(k, v)]"
| "dict_setitem ((k', v') # d) k v =
     (if k' = k then (k', v) # d else (k', v') # dict_setitem d k v)"

text \<open>\<^verbatim>\<open>d.update(e)\<close>: \<^verbatim>\<open>d[k] = v\<close> for every item of \<open>e\<close>, in the order of \<open>e\<close>.\<close>

fun dict_update :: "('k, 'v) dict \<Rightarrow> ('k, 'v) dict \<Rightarrow> ('k, 'v) dict" where
  "dict_update d [] = d"
| "dict_update d ((k, v) # e) = dict_update (dict_setitem d k v) e"

text \<open>\<^verbatim>\<open>d.pop(k, None)\<close>, the value dropped.\<close>

definition dict_pop :: "('k, 'v) dict \<Rightarrow> 'k \<Rightarrow> ('k, 'v) dict" where
  "dict_pop d k = filter (\<lambda>kv. fst kv \<noteq> k) d"

section \<open>The registry: \<^verbatim>\<open>StreamlinkPlugins\<close>\<close>

text \<open>The methods, on the value of \<^verbatim>\<open>self._plugins\<close>.\<close>

definition getitem :: "'p registry \<Rightarrow> string \<Rightarrow> exception + 'p plugin" where
  "getitem reg item = dict_getitem reg item"

definition setitem :: "'p registry \<Rightarrow> string \<Rightarrow> 'p plugin \<Rightarrow> 'p registry" where
  "setitem reg key val = dict_setitem reg key val"

definition delitem :: "'p registry \<Rightarrow> string \<Rightarrow> 'p registry" where
  "delitem reg key = dict_pop reg key"

definition contains :: "'p registry \<Rightarrow> string \<Rightarrow> bool" where
  "contains reg item = (item \<in> set (keys reg))"

text \<open>\<^verbatim>\<open>sorted(self._plugins.keys())\<close>: Python compares strings lexicographically by code
  point, a proper prefix being smaller; that is the order of \<open>char list\<close> here.\<close>

definition get_names :: "'p registry \<Rightarrow> string list" where
  "get_names reg = sort (keys reg)"

text \<open>\<^verbatim>\<open>dict(self._plugins)\<close>, as a value; the object identity of the copy is the subject of
  the store model further down.\<close>

definition get_loaded :: "'p registry \<Rightarrow> 'p registry" where
  "get_loaded reg = reg"

definition update :: "'p registry \<Rightarrow> 'p registry \<Rightarrow> 'p registry" where
  "update reg plugins = dict_update reg plugins"

definition clear :: "'p registry \<Rightarrow> 'p registry" where
  "clear reg = []"

text \<open>\<^verbatim>\<open>iter_matchers\<close>: the items whose \<^verbatim>\<open>matchers\<close> attribute is truthy, that is neither
  \<^verbatim>\<open>None\<close> nor empty, in the order of the dict.\<close>

fun iter_matchers :: "'p registry \<Rightarrow> (string \<times> 'p matcher list) list" where
  "iter_matchers [] = []"
| "iter_matchers ((name, plugin) # rest) =
     (case matchers plugin of
        None \<Rightarrow> iter_matchers rest
      | Some ms \<Rightarrow> if ms \<noteq> [] then (name, ms) # iter_matchers rest else iter_matchers rest)"

text \<open>
  The inner loop of \<^verbatim>\<open>match_url\<close>: \<^verbatim>\<open>for matcher in matchers\<close>, left at the first matcher
  with \<^verbatim>\<open>matcher.pattern.match(url) is not None\<close>. The regular-expression engine is not
  part of the source: \<open>rm p url\<close> says whether the compiled pattern \<open>p\<close> matches \<open>url\<close>.
  The result is the matcher at which the loop is left, \<open>None\<close> when it runs to its end.
\<close>

fun find_matcher :: "('p \<Rightarrow> string \<Rightarrow> bool) \<Rightarrow> string \<Rightarrow> 'p matcher list \<Rightarrow> 'p matcher option" where
  "find_matcher rm url [] = None"
| "find_matcher rm url (m # ms) =
     (if rm (pattern m) url then Some m else find_matcher rm url ms)"

text \<open>The outer loop: at the first handler with a matching matcher the result is
  \<^verbatim>\<open>name, self._plugins[name]\<close>; after the loop it is \<^verbatim>\<open>None\<close>. (The debug log line is
  left out.)\<close>

fun match_url_loop ::
  "('p \<Rightarrow> string \<Rightarrow> bool) \<Rightarrow> 'p registry \<Rightarrow> string \<Rightarrow> (string \<times> 'p matcher list) list
     \<Rightarrow> exception + (string \<times> 'p plugin) option" where
  "match_url_loop rm reg url [] = Inr None"
| "match_url_loop rm reg url ((name, ms) # rest) =
     (case find_matcher rm url ms of
        Some m \<Rightarrow>
          (case dict_getitem reg name of
             Inl e \<Rightarrow> Inl e
           | Inr p \<Rightarrow> Inr (Some (name, p)))
      | None \<Rightarrow> match_url_loop rm reg url rest)"

definition match_url ::
  "('p \<Rightarrow> string \<Rightarrow> bool) \<Rightarrow> 'p registry \<Rightarrow> string \<Rightarrow> exception + (string \<times> 'p plugin) option" where
  "match_url rm reg url = match_url_loop rm reg url (iter_matchers reg)"

text \<open>"The handler has some matching pattern", said without the loops.\<close>

definition plugin_matches :: "('p \<Rightarrow> string \<Rightarrow> bool) \<Rightarrow> 'p plugin \<Rightarrow> string \<Rightarrow> bool" where
  "plugin_matches rm p url =
     (case matchers p of None \<Rightarrow> False | Some ms \<Rightarrow> list_ex (\<lambda>m. rm (pattern m) url) ms)"

text \<open>An instance of the pattern parameter for concrete inputs: a pattern without
  metacharacters is a literal string, and \<^verbatim>\<open>Pattern.match\<close> anchors it at the start of the
  URL.\<close>

definition literal_match :: "string \<Rightarrow> string \<Rightarrow> bool" where
  "literal_match p url = (take (length p) url = p)"

definition handler :: "string \<Rightarrow> string list \<Rightarrow> string plugin" where
  "handler c ps = \<lparr>class_id = c, matchers = Some (map (\<lambda>p. \<lparr>pattern = p, priority = 0\<rparr>) ps)\<rparr>"

section \<open>The loader\<close>

text \<open>
  \<^verbatim>\<open>pkgutil.iter_modules\<close> and \<^verbatim>\<open>exec_module\<close> are not part of the source. A path is given by
  what they produce: the names of its modules, in the order of discovery, each with the
  outcome of \<^verbatim>\<open>exec_module\<close> for it. That outcome is an exception or a module object; of a
  module the loader reads \<^verbatim>\<open>__file__\<close> and the attribute \<^verbatim>\<open>__plugin__\<close>, which is missing,
  or is not a class (\<^verbatim>\<open>issubclass\<close> then raises \<open>TypeError\<close>), or is a class that does
  not derive from \<^verbatim>\<open>Plugin\<close>, or is a handler class.
\<close>

datatype 'p plugin_attr = NoAttribute | NotAClass | OtherClass | PluginClass "'p plugin"

record 'p pymodule =
  mod_file :: string
  mod_plugin :: "'p plugin_attr"

datatype 'p exec_result = Raised exception | Loaded "'p pymodule"

type_synonym 'p path = "(string \<times> 'p exec_result) list"

text \<open>The records written to the log: \<^verbatim>\<open>log.exception\<close> with the module's name, and
  \<^verbatim>\<open>log.info\<close> with the name and file of an overriding module.\<close>

datatype log_record = LogException string | LogInfo string string

fun is_LogException :: "log_record \<Rightarrow> bool" where
  "is_LogException (LogException name) = True"
| "is_LogException (LogInfo name file) = False"

text \<open>\<^verbatim>\<open>_load_plugin_from_finder\<close>: only \<open>ImportError\<close> is caught.\<close>

fun load_plugin_from_finder ::
  "string \<Rightarrow> 'p exec_result \<Rightarrow> log_record list \<times> (exception + ('p pymodule \<times> 'p plugin) option)" where
  "load_plugin_from_finder name (Raised err) =
     (if is_ImportError err then ([LogException name], Inr None) else ([], Inl err))"
| "load_plugin_from_finder name (Loaded m) =
     (case mod_plugin m of
        NoAttribute \<Rightarrow> ([], Inr None)
      | NotAClass \<Rightarrow> ([], Inl TypeError)
      | OtherClass \<Rightarrow> ([], Inr None)
      | PluginClass plugin \<Rightarrow> ([], Inr (Some (m, plugin))))"

text \<open>The four local dicts of \<^verbatim>\<open>_load_from_path\<close>.\<close>

record 'p loading =
  plugins :: "'p registry"
  tDash :: "'p registry"
  tHls :: "'p registry"
  tHttp :: "'p registry"

text \<open>The \<^verbatim>\<open>if/elif/else\<close> of the loop body, for a module that yielded a handler class.\<close>

definition store_plugin ::
  "string \<Rightarrow> 'p pymodule \<Rightarrow> 'p plugin \<Rightarrow> 'p loading \<Rightarrow> log_record list \<times> 'p loading" where
  "store_plugin name m plugin s =
     (if name = ''dash'' then ([], s\<lparr>tDash := dict_setitem (tDash s) name plugin\<rparr>)
      else if name = ''hls'' then ([], s\<lparr>tHls := dict_setitem (tHls s) name plugin\<rparr>)
      else if name = ''http'' then ([], s\<lparr>tHttp := dict_setitem (tHttp s) name plugin\<rparr>)
      else (if name \<in> set (keys (plugins s)) then [LogInfo name (mod_file m)] else [],
            s\<lparr>plugins := dict_setitem (plugins s) name plugin\<rparr>))"

text \<open>The loop over the modules of the path; an exception leaves it.\<close>

fun load_loop :: "'p path \<Rightarrow> 'p loading \<Rightarrow> log_record list \<times> (exception + 'p loading)" where
  "load_loop [] s = ([], Inr s)"
| "load_loop ((name, r) # rest) s =
     (case load_plugin_from_finder name r of
        (l, Inl err) \<Rightarrow> (l, Inl err)
      | (l, Inr None) \<Rightarrow> (case load_loop rest s of (l', res) \<Rightarrow> (l @ l', res))
      | (l, Inr (Some (m, plugin))) \<Rightarrow>
          (case store_plugin name m plugin s of
             (l1, s') \<Rightarrow> (case load_loop rest s' of (l', res) \<Rightarrow> (l @ l1 @ l', res))))"

text \<open>After the loop: \<^verbatim>\<open>if tHls: plugins.update(tHls)\<close>, then the same for \<^verbatim>\<open>tDash\<close> and
  \<^verbatim>\<open>tHttp\<close>.\<close>

definition merge_fallbacks :: "'p loading \<Rightarrow> 'p registry" where
  "merge_fallbacks s =
     (let p1 = (if tHls s \<noteq> [] then dict_update (plugins s) (tHls s) else plugins s);
          p2 = (if tDash s \<noteq> [] then dict_update p1 (tDash s) else p1);
          p3 = (if tHttp s \<noteq> [] then dict_update p2 (tHttp s) else p2)
      in p3)"

definition load_from_path :: "'p path \<Rightarrow> log_record list \<times> (exception + 'p registry)" where
  "load_from_path path =
     (case load_loop path \<lparr>plugins = [], tDash = [], tHls = [], tHttp = []\<rparr> of
        (l, Inl err) \<Rightarrow> (l, Inl err)
      | (l, Inr s) \<Rightarrow> (l, Inr (merge_fallbacks s)))"

text \<open>\<^verbatim>\<open>load_path\<close>: the new value of the registry and the returned \<^verbatim>\<open>bool(plugins)\<close>,
  \<open>batch\<close> being the local \<^verbatim>\<open>plugins\<close>. When
  the loader raises, \<^verbatim>\<open>self.update\<close> is not reached and the registry stays as it was.\<close>

definition load_path ::
  "'p registry \<Rightarrow> 'p path \<Rightarrow> log_record list \<times> (exception + 'p registry \<times> bool)" where
  "load_path reg path =
     (case load_from_path path of
        (l, Inl err) \<Rightarrow> (l, Inl err)
      | (l, Inr batch) \<Rightarrow> (l, Inr (update reg batch, batch \<noteq> [])))"

text \<open>\<^verbatim>\<open>__init__\<close>: an empty dict, then \<^verbatim>\<open>load_builtin\<close> (that is \<^verbatim>\<open>load_path\<close> on the path of
  the built-in handlers) when \<open>builtin\<close> is set.\<close>

definition init :: "bool \<Rightarrow> 'p path \<Rightarrow> log_record list \<times> (exception + 'p registry)" where
  "init builtin builtin_path =
     (if builtin then
        (case load_path [] builtin_path of
           (l, Inl err) \<Rightarrow> (l, Inl err)
         | (l, Inr (reg, b)) \<Rightarrow> (l, Inr reg))
      else ([], Inr []))"

text \<open>The reserved names of the generic fallback handlers.\<close>

definition fallback_names :: "string set" where
  "fallback_names = {''dash'', ''hls'', ''http''}"

text \<open>The handlers a path yields, in the order of discovery: the modules that were loaded
  and export a handler class.\<close>

fun exported :: "'p path \<Rightarrow> (string \<times> 'p plugin) list" where
  "exported [] = []"
| "exported ((name, Raised err) # rest) = exported rest"
| "exported ((name, Loaded m) # rest) =
     (case mod_plugin m of PluginClass plugin \<Rightarrow> (name, plugin) # exported rest | _ \<Rightarrow> exported rest)"

text \<open>An outcome that the loader survives: an \<open>ImportError\<close>, or a module whose
  \<^verbatim>\<open>__plugin__\<close> is missing or is a class.\<close>

fun survivable :: "'p exec_result \<Rightarrow> bool" where
  "survivable (Raised err) = is_ImportError err"
| "survivable (Loaded m) = (mod_plugin m \<noteq> NotAClass)"

fun exports_plugin :: "'p exec_result \<Rightarrow> bool" where
  "exports_plugin (Raised err) = False"
| "exports_plugin (Loaded m) = (case mod_plugin m of PluginClass plugin \<Rightarrow> True | _ \<Rightarrow> False)"

definition plugin_module :: "string \<Rightarrow> 'p plugin \<Rightarrow> 'p exec_result" where
  "plugin_module file plugin = Loaded \<lparr>mod_file = file, mod_plugin = PluginClass plugin\<rparr>"

text \<open>Two handlers of the spec's scenarios: a site-specific one and the generic
  \<^verbatim>\<open>http\<close> fallback, whose patterns accept any plain URL.\<close>

definition siteA :: "string plugin" where
  "siteA = handler ''SiteA'' [''https://sitea.example/'']"

definition http_plugin :: "string plugin" where
  "http_plugin = handler ''HTTPStreamPlugin'' [''httpstream://'', ''https://'']"

definition hls_plugin :: "string plugin" where
  "hls_plugin = handler ''HLSPlugin'' [''hls://'', ''https://'']"

definition dash_plugin :: "string plugin" where
  "dash_plugin = handler ''MPEGDASH'' [''dash://'', ''https://'']"

text \<open>Two paths, their modules in the alphabetical order of discovery.\<close>

definition site_path :: "string path" where
  "site_path = [(''http'', plugin_module ''http.py'' http_plugin),
                (''sitea'', plugin_module ''sitea.py'' siteA)]"

definition fallback_path :: "string path" where
  "fallback_path = [(''dash'', plugin_module ''dash.py'' dash_plugin),
                    (''hls'', plugin_module ''hls.py'' hls_plugin),
                    (''http'', plugin_module ''http.py'' http_plugin)]"

fun raised :: "'p exec_result \<Rightarrow> bool" where
  "raised (Raised err) = True"
| "raised (Loaded m) = False"

text \<open>More paths: one with a module that fails with \<open>ImportError\<close>, a module without
  \<^verbatim>\<open>__plugin__\<close> and a module whose \<^verbatim>\<open>__plugin__\<close> is a foreign class; one with a module that
  fails with \<open>SyntaxError\<close>; one with a module whose \<^verbatim>\<open>__plugin__\<close> is not a class.\<close>

definition mixed_path :: "string path" where
  "mixed_path = [(''broken'', Raised ImportError),
                 (''empty'', Loaded \<lparr>mod_file = ''empty.py'', mod_plugin = NoAttribute\<rparr>),
                 (''other'', Loaded \<lparr>mod_file = ''other.py'', mod_plugin = OtherClass\<rparr>),
                 (''sitea'', plugin_module ''sitea.py'' siteA)]"

definition broken_path :: "string path" where
  "broken_path = [(''broken'', Raised SyntaxError),
                  (''sitea'', plugin_module ''sitea.py'' siteA)]"

definition bad_export_path :: "string path" where
  "bad_export_path = [(''broken'', Loaded \<lparr>mod_file = ''broken.py'', mod_plugin = NotAClass\<rparr>),
                      (''sitea'', plugin_module ''sitea.py'' siteA)]"

text \<open>A second version of the site handler, with a narrower pattern, and another site.\<close>

definition siteA2 :: "string plugin" where
  "siteA2 = handler ''SiteA2'' [''https://sitea.example/live/'']"

definition siteB :: "string plugin" where
  "siteB = handler ''SiteB'' [''https://siteb.example/'']"

section \<open>The registry as an object in a store\<close>

text \<open>
  Whether \<^verbatim>\<open>get_loaded\<close> hands out a copy or the dict of the registry itself is a question of
  object identity. Here dicts are objects in a store: an address is a number, the addresses
  below \<open>limit\<close> are allocated, \<open>dicts\<close> gives the contents of the dict at an address, and
  \<open>self_plugins\<close> is the reference held in the attribute \<^verbatim>\<open>self._plugins\<close>. The methods mutate
  the dict at that address in place, as the Python does.
\<close>

type_synonym addr = nat

record 'p heap =
  dicts :: "addr \<Rightarrow> 'p registry"
  limit :: addr
  self_plugins :: addr

text \<open>A new dict object (\<^verbatim>\<open>{}\<close>, or \<^verbatim>\<open>dict(d)\<close> with the items of \<open>d\<close>) at a fresh address.\<close>

definition new_dict :: "'p registry \<Rightarrow> 'p heap \<Rightarrow> addr \<times> 'p heap" where
  "new_dict d h = (limit h, h\<lparr>dicts := (dicts h)(limit h := d), limit := Suc (limit h)\<rparr>)"

definition mutate_self :: "('p registry \<Rightarrow> 'p registry) \<Rightarrow> 'p heap \<Rightarrow> 'p heap" where
  "mutate_self f h = h\<lparr>dicts := (dicts h)(self_plugins h := f (dicts h (self_plugins h)))\<rparr>"

definition heap_setitem :: "string \<Rightarrow> 'p plugin \<Rightarrow> 'p heap \<Rightarrow> 'p heap" where
  "heap_setitem key val h = mutate_self (\<lambda>d. dict_setitem d key val) h"

definition heap_delitem :: "string \<Rightarrow> 'p heap \<Rightarrow> 'p heap" where
  "heap_delitem key h = mutate_self (\<lambda>d. dict_pop d key) h"

definition heap_clear :: "'p heap \<Rightarrow> 'p heap" where
  "heap_clear h = mutate_self (\<lambda>d. []) h"

text \<open>\<^verbatim>\<open>update(plugins)\<close>: the argument is a reference to a mapping, which is read.\<close>

definition heap_update :: "addr \<Rightarrow> 'p heap \<Rightarrow> 'p heap" where
  "heap_update a h = mutate_self (\<lambda>d. dict_update d (dicts h a)) h"

text \<open>\<^verbatim>\<open>get_loaded\<close>: \<^verbatim>\<open>dict(self._plugins)\<close> is a new object with the items of the registry;
  its address is returned.\<close>

definition heap_get_loaded :: "'p heap \<Rightarrow> addr \<times> 'p heap" where
  "heap_get_loaded h = new_dict (dicts h (self_plugins h)) h"

text \<open>\<^verbatim>\<open>_load_from_path\<close> creates its four dicts first; after the loop they hold what
  \<open>load_loop\<close> computes, and the address of \<^verbatim>\<open>plugins\<close> is returned. When the loop raises,
  no reference to the four dicts is left, and their contents are of no account.\<close>

definition heap_load_from_path ::
  "'p path \<Rightarrow> 'p heap \<Rightarrow> log_record list \<times> (exception + addr) \<times> 'p heap" where
  "heap_load_from_path path h =
     (case new_dict [] h of (pa, h1) \<Rightarrow>
      case new_dict [] h1 of (da, h2) \<Rightarrow>
      case new_dict [] h2 of (ha, h3) \<Rightarrow>
      case new_dict [] h3 of (ta, h4) \<Rightarrow>
        (case load_loop path \<lparr>plugins = [], tDash = [], tHls = [], tHttp = []\<rparr> of
           (l, Inl err) \<Rightarrow> (l, Inl err, h4)
         | (l, Inr s) \<Rightarrow>
             (l, Inr pa,
              h4\<lparr>dicts := (dicts h4)(pa := merge_fallbacks s, da := tDash s, ha := tHls s,
                                       ta := tHttp s)\<rparr>)))"

definition heap_load_path ::
  "'p path \<Rightarrow> 'p heap \<Rightarrow> log_record list \<times> (exception + bool) \<times> 'p heap" where
  "heap_load_path path h =
     (case heap_load_from_path path h of
        (l, Inl err, h') \<Rightarrow> (l, Inl err, h')
      | (l, Inr pa, h') \<Rightarrow> (l, Inr (dicts h' pa \<noteq> []), heap_update pa h'))"

text \<open>\<^verbatim>\<open>__init__\<close> without the built-in handlers: one empty dict, referenced by
  \<^verbatim>\<open>self._plugins\<close>.\<close>

definition heap_init :: "'p heap" where
  "heap_init = \<lparr>dicts = (\<lambda>a. []), limit = 1, self_plugins = 0\<rparr>"

text \<open>The mutations of the registry, and a run of them one after the other. A load that
  raises leaves the registry as it is; the caller goes on.\<close>

datatype 'p mutation =
    Register string "'p plugin"
  | Remove string
  | Clear
  | Update addr
  | LoadPath "'p path"

fun mutate :: "'p mutation \<Rightarrow> 'p heap \<Rightarrow> 'p heap" where
  "mutate (Register key val) h = heap_setitem key val h"
| "mutate (Remove key) h = heap_delitem key h"
| "mutate Clear h = heap_clear h"
| "mutate (Update a) h = heap_update a h"
| "mutate (LoadPath path) h = snd (snd (heap_load_path path h))"

fun mutations :: "'p mutation list \<Rightarrow> 'p heap \<Rightarrow> 'p heap" where
  "mutations [] h = h"
| "mutations (m # ms) h = mutations ms (mutate m h)"

section \<open>The HTTP stream: \<^verbatim>\<open>HTTPStream\<close>\<close>

text \<open>
  The response and the stream wrappers are objects from outside the source. Of such an
  object the method \<^verbatim>\<open>close\<close> of the stream needs to know whether it has an attribute
  \<^verbatim>\<open>close\<close>, and what a call of it does: \<open>close_outcome k\<close> is the exception that the call
  number \<open>k\<close> raises, or \<open>None\<close> when that call returns; \<open>close_calls\<close> counts the calls made.
\<close>

record handle =
  has_close :: bool
  close_calls :: nat
  close_outcome :: "nat \<Rightarrow> exception option"

definition handle_close :: "handle \<Rightarrow> (exception + unit) \<times> handle" where
  "handle_close x =
     (case close_outcome x (close_calls x) of None \<Rightarrow> Inr () | Some err \<Rightarrow> Inl err,
      x\<lparr>close_calls := Suc (close_calls x)\<rparr>)"

text \<open>The attributes of the stream that \<^verbatim>\<open>open\<close> and \<^verbatim>\<open>close\<close> use; \<^verbatim>\<open>None\<close> is \<open>None\<close>.\<close>

record http_stream =
  buffered :: bool
  fd :: "handle option"
  res :: "handle option"

definition stream_init :: "bool \<Rightarrow> http_stream" where
  "stream_init b = \<lparr>buffered = b, fd = None, res = None\<rparr>"

text \<open>\<^verbatim>\<open>try: ... except: pass\<close>: whatever is raised is dropped.\<close>

definition except_pass :: "exception + unit \<Rightarrow> exception + unit" where
  "except_pass r = (case r of Inl err \<Rightarrow> Inr () | Inr u \<Rightarrow> Inr u)"

text \<open>\<^verbatim>\<open>if hasattr(x, "close"): try: x.close() except: pass\<close>, for an attribute \<open>x\<close>.\<close>

definition close_attr :: "handle option \<Rightarrow> (exception + unit) \<times> handle option" where
  "close_attr x =
     (case x of
        None \<Rightarrow> (Inr (), None)
      | Some obj \<Rightarrow>
          if has_close obj
          then (case handle_close obj of (r, obj') \<Rightarrow> (except_pass r, Some obj'))
          else (Inr (), Some obj))"

text \<open>\<^verbatim>\<open>close\<close>: first \<^verbatim>\<open>self.res\<close>, then \<^verbatim>\<open>self.fd\<close>.\<close>

definition close :: "http_stream \<Rightarrow> (exception + unit) \<times> http_stream" where
  "close s =
     (case close_attr (res s) of
        (Inl err, r') \<Rightarrow> (Inl err, s\<lparr>res := r'\<rparr>)
      | (Inr u, r') \<Rightarrow>
          (case close_attr (fd s) of (out, f') \<Rightarrow> (out, s\<lparr>fd := f', res := r'\<rparr>)))"

text \<open>\<^verbatim>\<open>open\<close>: the request, the iterator wrapper and the thread wrapper come from outside
  the source; each of them returns an object or raises, and that is given here.\<close>

record open_env =
  request :: "exception + handle"
  iter_wrapper :: "exception + handle"
  thread_wrapper :: "exception + handle"

definition open_stream :: "open_env \<Rightarrow> http_stream \<Rightarrow> (exception + handle) \<times> http_stream" where
  "open_stream env s =
     (case request env of
        Inl err \<Rightarrow> (Inl err, s)
      | Inr r \<Rightarrow>
          (case iter_wrapper env of
             Inl err \<Rightarrow> (Inl err, s\<lparr>res := Some r\<rparr>)
           | Inr f \<Rightarrow>
               if buffered s
               then (case thread_wrapper env of
                       Inl err \<Rightarrow> (Inl err, s\<lparr>fd := Some f, res := Some r\<rparr>)
                     | Inr t \<Rightarrow> (Inr t, s\<lparr>fd := Some t, res := Some r\<rparr>))
               else (Inr f, s\<lparr>fd := Some f, res := Some r\<rparr>)))"

text \<open>\<open>n\<close> calls of \<^verbatim>\<open>close\<close> one after the other; the run stops at a call that raises.\<close>

fun close_times :: "nat \<Rightarrow> http_stream \<Rightarrow> (exception + unit) \<times> http_stream" where
  "close_times 0 s = (Inr (), s)"
| "close_times (Suc n) s =
     (case close s of
        (Inl err, s') \<Rightarrow> (Inl err, s')
      | (Inr u, s') \<Rightarrow> close_times n s')"

text \<open>Two objects for concrete runs: one whose \<^verbatim>\<open>close\<close> raises at every call, one whose
  \<^verbatim>\<open>close\<close> returns.\<close>

definition failing_handle :: handle where
  "failing_handle = \<lparr>has_close = True, close_calls = 0, close_outcome = (\<lambda>k. Some StreamError)\<rparr>"

definition good_handle :: handle where
  "good_handle = \<lparr>has_close = True, close_calls = 0, close_outcome = (\<lambda>k. None)\<rparr>"

text \<open>An \<^verbatim>\<open>open\<close> that fails after the request: the response is there, the wrapper of its
  iterator raises.\<close>

definition failed_open :: open_env where
  "failed_open = \<lparr>request = Inr failing_handle, iter_wrapper = Inl StreamError,
                   thread_wrapper = Inl StreamError\<rparr>"

section \<open>Dictionaries\<close>

lemma keys_simps [simp]: "keys [] = []" "keys (kv # d) = fst kv # keys d"
  by (simp_all add: keys_def)

lemma keys_append [simp]: "keys (d @ e) = keys d @ keys e"
  by (simp add: keys_def)

lemma keys_setitem:
  "keys (dict_setitem d k v) = (if k \<in> set (keys d) then keys d else keys d @ [k])"
  by (induction d) auto

lemma distinct_setitem: "distinct (keys d) \<Longrightarrow> distinct (keys (dict_setitem d k v))"
  by (simp add: keys_setitem)

lemma map_of_setitem: "map_of (dict_setitem d k v) = (map_of d)(k \<mapsto> v)"
  by (induction d) (auto simp: fun_eq_iff)

lemma distinct_update: "distinct (keys d) \<Longrightarrow> distinct (keys (dict_update d e))"
  by (induction d e rule: dict_update.induct) (simp_all add: distinct_setitem)

lemma map_of_update: "map_of (dict_update d e) k = (case map_of (rev e) k of None \<Rightarrow> map_of d k | Some v \<Rightarrow> Some v)"
  by (induction d e rule: dict_update.induct) (auto simp: map_of_setitem split: option.splits)

lemma dict_setitem_new: "k \<notin> set (keys d) \<Longrightarrow> dict_setitem d k v = d @ [(k, v)]"
  by (induction d) auto

lemma dict_update_append: "dict_update d (e1 @ e2) = dict_update (dict_update d e1) e2"
  by (induction d e1 rule: dict_update.induct) simp_all

lemma dict_update_disjoint:
  "distinct (keys e) \<Longrightarrow> set (keys e) \<inter> set (keys d) = {} \<Longrightarrow> dict_update d e = d @ e"
proof (induction d e rule: dict_update.induct)
  case (1 d)
  then show ?case by simp
next
  case (2 d k v e)
  from 2(3) have "k \<notin> set (keys d)" by auto
  then have s: "dict_setitem d k v = d @ [(k, v)]" by (rule dict_setitem_new)
  from 2(2,3) have "distinct (keys e)" "set (keys e) \<inter> set (keys (d @ [(k, v)])) = {}" by auto
  with 2(1) s show ?case by simp
qed

lemma set_keys_update: "set (keys (dict_update d e)) = set (keys d) \<union> set (keys e)"
  by (induction d e rule: dict_update.induct) (auto simp: keys_setitem)

lemma dict_setitem_not_Nil: "dict_setitem d k v \<noteq> []"
  by (cases d) (auto split: if_splits)

lemma in_keys_filter: "x \<in> set (keys (filter Q d)) \<longleftrightarrow> (\<exists>v. (x, v) \<in> set d \<and> Q (x, v))"
  by (force simp: keys_def)

lemma dict_update_Nil_iff: "dict_update d e = [] \<longleftrightarrow> d = [] \<and> e = []"
  by (induction d e rule: dict_update.induct) (auto simp: dict_setitem_not_Nil)

lemma single_key_dict:
  assumes "distinct (keys d)" "set (keys d) \<subseteq> {k}"
  shows "d = [] \<or> (\<exists>v. d = [(k, v)])"
proof (cases d)
  case Nil
  then show ?thesis by simp
next
  case (Cons a d')
  with assms have "fst a = k" "set (keys d') \<subseteq> {k}" "k \<notin> set (keys d')" by auto
  then have "keys d' = []" by (cases "keys d'") auto
  then have "d' = []" by (simp add: keys_def)
  with Cons \<open>fst a = k\<close> show ?thesis by (cases a) auto
qed

section \<open>Resolution\<close>

lemma find_matcher_None: "find_matcher rm url ms = None \<longleftrightarrow> \<not> list_ex (\<lambda>m. rm (pattern m) url) ms"
  by (induction ms) auto

lemma find_matcher_find: "find_matcher rm url ms = find (\<lambda>m. rm (pattern m) url) ms"
  by (induction ms) auto

lemma match_url_loop_find:
  assumes "distinct (keys reg)" "set r \<subseteq> set reg"
  shows "match_url_loop rm reg url (iter_matchers r) =
           Inr (find (\<lambda>np. plugin_matches rm (snd np) url) r)"
  using assms(2)
proof (induction r)
  case Nil
  then show ?case by simp
next
  case (Cons a r)
  obtain name plugin where a: "a = (name, plugin)" by (cases a)
  from Cons.prems a have mem: "(name, plugin) \<in> set reg" and sub: "set r \<subseteq> set reg" by auto
  from mem assms(1) have get: "dict_getitem reg name = Inr plugin"
    by (simp add: dict_getitem_def keys_def)
  show ?case
  proof (cases "matchers plugin")
    case None
    with a Cons.IH [OF sub] show ?thesis by (simp add: plugin_matches_def)
  next
    case ms: (Some ms)
    show ?thesis
    proof (cases "find_matcher rm url ms")
      case None
      moreover from None have "\<not> list_ex (\<lambda>m. rm (pattern m) url) ms"
        by (simp add: find_matcher_None)
      ultimately show ?thesis using ms a Cons.IH [OF sub]
        by (simp add: plugin_matches_def)
    next
      case (Some m)
      then have "list_ex (\<lambda>m. rm (pattern m) url) ms" "ms \<noteq> []"
        using find_matcher_None [of rm url ms] by auto
      with Some ms a get show ?thesis
        by (simp add: plugin_matches_def)
    qed
  qed
qed

text \<open>On a dict, resolution is the search for the first item whose handler has a matching
  pattern.\<close>

lemma match_url_find:
  "distinct (keys reg) \<Longrightarrow>
     match_url rm reg url = Inr (find (\<lambda>np. plugin_matches rm (snd np) url) reg)"
  by (simp add: match_url_def match_url_loop_find)

text \<open>The lookup \<^verbatim>\<open>self._plugins[name]\<close> is made with a name that the iteration took from
  the dict itself, so its \<open>KeyError\<close> branch is never taken.\<close>

lemma match_url_loop_returns:
  "set r \<subseteq> set reg \<Longrightarrow> \<exists>res. match_url_loop rm reg url (iter_matchers r) = Inr res"
proof (induction r)
  case Nil
  then show ?case by simp
next
  case (Cons a r)
  obtain name plugin where a: "a = (name, plugin)" by (cases a)
  from Cons.prems a have "name \<in> fst ` set reg" by force
  then obtain p where "map_of reg name = Some p"
    by (metis map_of_eq_None_iff not_Some_eq)
  then have get: "dict_getitem reg name = Inr p" by (simp add: dict_getitem_def)
  from Cons have IH: "\<exists>res. match_url_loop rm reg url (iter_matchers r) = Inr res" by simp
  show ?case using a get IH by (simp split: option.splits)
qed

lemma match_url_returns: "\<exists>res. match_url rm reg url = Inr res"
  by (simp add: match_url_def match_url_loop_returns)

lemma match_url_loop_no_match:
  "\<not> list_ex (\<lambda>np. plugin_matches rm (snd np) url) r \<Longrightarrow>
     match_url_loop rm reg url (iter_matchers r) = Inr None"
proof (induction r)
  case Nil
  then show ?case by simp
next
  case (Cons a r)
  obtain name plugin where a: "a = (name, plugin)" by (cases a)
  from Cons a have IH: "match_url_loop rm reg url (iter_matchers r) = Inr None"
    and no: "\<not> plugin_matches rm plugin url" by simp_all
  show ?case
  proof (cases "matchers plugin")
    case None
    with a IH show ?thesis by simp
  next
    case (Some ms)
    with no have "find_matcher rm url ms = None"
      by (simp add: plugin_matches_def find_matcher_None)
    with Some a IH show ?thesis by simp
  qed
qed

lemma match_url_no_match:
  "\<not> list_ex (\<lambda>np. plugin_matches rm (snd np) url) reg \<Longrightarrow> match_url rm reg url = Inr None"
  by (simp add: match_url_def match_url_loop_no_match)

section \<open>The batch a path yields\<close>

lemma load_loop_closed:
  "load_loop path s = (l, Inr s') \<Longrightarrow>
     plugins s' = dict_update (plugins s) (filter (\<lambda>np. fst np \<notin> fallback_names) (exported path))
   \<and> tDash s' = dict_update (tDash s) (filter (\<lambda>np. fst np = ''dash'') (exported path))
   \<and> tHls s' = dict_update (tHls s) (filter (\<lambda>np. fst np = ''hls'') (exported path))
   \<and> tHttp s' = dict_update (tHttp s) (filter (\<lambda>np. fst np = ''http'') (exported path))"
proof (induction path arbitrary: s l)
  case Nil
  then show ?case by simp
next
  case (Cons a path)
  obtain name r where a: "a = (name, r)" by (cases a)
  show ?case
  proof (cases "load_plugin_from_finder name r")
    case (Pair l0 res0)
    show ?thesis
    proof (cases res0)
      case (Inl err)
      with Pair a Cons.prems show ?thesis by simp
    next
      case (Inr found)
      show ?thesis
      proof (cases found)
        case None
        with Inr Pair have ex: "exported (a # path) = exported path"
          unfolding a by (cases r) (auto split: if_splits plugin_attr.splits)
        from None Inr Pair a Cons.prems obtain l' where "load_loop path s = (l', Inr s')"
          by (auto split: prod.splits)
        from Cons.IH [OF this] ex show ?thesis by simp
      next
        case (Some mp)
        obtain m plugin where mp: "mp = (m, plugin)" by (cases mp)
        with Some Inr Pair have ex: "exported (a # path) = (name, plugin) # exported path"
          unfolding a by (cases r) (auto split: if_splits plugin_attr.splits)
        obtain l1 s1 where st: "store_plugin name m plugin s = (l1, s1)"
          by (cases "store_plugin name m plugin s")
        with mp Some Inr Pair a Cons.prems obtain l' where "load_loop path s1 = (l', Inr s')"
          by (auto split: prod.splits)
        note IH = Cons.IH [OF this]
        from st have
          "plugins s1 = (if name \<notin> fallback_names then dict_setitem (plugins s) name plugin else plugins s)"
          "tDash s1 = (if name = ''dash'' then dict_setitem (tDash s) name plugin else tDash s)"
          "tHls s1 = (if name = ''hls'' then dict_setitem (tHls s) name plugin else tHls s)"
          "tHttp s1 = (if name = ''http'' then dict_setitem (tHttp s) name plugin else tHttp s)"
          by (auto simp: store_plugin_def fallback_names_def split: if_splits)
        with IH ex show ?thesis by simp
      qed
    qed
  qed
qed

lemma batch_structure:
  assumes "load_from_path path = (l, Inr B)"
  shows "\<exists>P H D T. B = P @ H @ D @ T \<and> distinct (keys P) \<and> set (keys P) \<inter> fallback_names = {}
           \<and> P = dict_update [] (filter (\<lambda>np. fst np \<notin> fallback_names) (exported path))
           \<and> (H = [] \<or> (\<exists>h. H = [(''hls'', h)]))
           \<and> (D = [] \<or> (\<exists>d. D = [(''dash'', d)]))
           \<and> (T = [] \<or> (\<exists>t. T = [(''http'', t)]))"
proof -
  let ?s0 = "\<lparr>plugins = [], tDash = [], tHls = [], tHttp = []\<rparr> :: 'a loading"
  from assms obtain s where loop: "load_loop path ?s0 = (l, Inr s)" and B: "B = merge_fallbacks s"
    by (auto simp: load_from_path_def split: prod.splits sum.splits)
  note C = load_loop_closed [OF loop]
  let ?P = "plugins s" and ?H = "tHls s" and ?D = "tDash s" and ?T = "tHttp s"
  have dP: "distinct (keys ?P)" and dH: "distinct (keys ?H)" and dD: "distinct (keys ?D)"
    and dT: "distinct (keys ?T)"
    using C by (simp_all add: distinct_update)
  have kP: "set (keys ?P) \<inter> fallback_names = {}"
    using C by (auto simp: set_keys_update in_keys_filter)
  have kH: "set (keys ?H) \<subseteq> {''hls''}" and kD: "set (keys ?D) \<subseteq> {''dash''}"
    and kT: "set (keys ?T) \<subseteq> {''http''}"
    using C by (auto simp: set_keys_update in_keys_filter)
  have H: "?H = [] \<or> (\<exists>h. ?H = [(''hls'', h)])" using dH kH by (rule single_key_dict)
  have D: "?D = [] \<or> (\<exists>d. ?D = [(''dash'', d)])" using dD kD by (rule single_key_dict)
  have T: "?T = [] \<or> (\<exists>t. ?T = [(''http'', t)])" using dT kT by (rule single_key_dict)
  have 1: "dict_update ?P ?H = ?P @ ?H"
    using dH kH kP by (intro dict_update_disjoint) (auto simp: fallback_names_def)
  have 2: "dict_update (?P @ ?H) ?D = ?P @ ?H @ ?D"
    using dD kD kP kH by (subst dict_update_disjoint) (auto simp: fallback_names_def)
  have 3: "dict_update (?P @ ?H @ ?D) ?T = ?P @ ?H @ ?D @ ?T"
    using dT kT kP kH kD by (subst dict_update_disjoint) (auto simp: fallback_names_def)
  have "B = ?P @ ?H @ ?D @ ?T"
    unfolding B merge_fallbacks_def Let_def using 1 2 3 by auto
  moreover have "?P = dict_update [] (filter (\<lambda>np. fst np \<notin> fallback_names) (exported path))"
    using C by simp
  ultimately show ?thesis using dP kP H D T by blast
qed

lemma find_append_first:
  "find Q xs = Some x \<Longrightarrow> find Q (xs @ ys) = Some x"
  by (induction xs) (auto split: if_splits)

lemma find_append_none:
  "find Q xs = None \<Longrightarrow> find Q (xs @ ys) = find Q ys"
  by (induction xs) (auto split: if_splits)

lemma find_in_set: "x \<in> set xs \<Longrightarrow> Q x \<Longrightarrow> \<exists>y. find Q xs = Some y \<and> y \<in> set xs \<and> Q y"
  by (induction xs) auto

lemma fallback_keys_order:
  assumes kP: "set (keys P) \<inter> fallback_names = {}"
    and H: "H = [] \<or> (\<exists>h. H = [(''hls'', h)])"
    and D: "D = [] \<or> (\<exists>d. D = [(''dash'', d)])"
    and T: "T = [] \<or> (\<exists>t. T = [(''http'', t)])"
  shows "keys (H @ D @ T) = filter (\<lambda>k. k \<in> set (keys (P @ H @ D @ T))) [''hls'', ''dash'', ''http'']"
proof -
  have nP: "''hls'' \<notin> set (keys P)" "''dash'' \<notin> set (keys P)" "''http'' \<notin> set (keys P)"
    using kP by (auto simp: fallback_names_def)
  have ne: "''hls'' \<noteq> ''dash''" "''hls'' \<noteq> ''http''" "''dash'' \<noteq> ''http''"
    "''dash'' \<noteq> ''hls''" "''http'' \<noteq> ''hls''" "''http'' \<noteq> ''dash''" by simp_all
  have h: "''hls'' \<in> set (keys (P @ H @ D @ T)) \<longleftrightarrow> H \<noteq> []"
    using nP(1) ne H D T by (elim disjE exE) simp_all
  have d: "''dash'' \<in> set (keys (P @ H @ D @ T)) \<longleftrightarrow> D \<noteq> []"
    using nP(2) ne H D T by (elim disjE exE) simp_all
  have t: "''http'' \<in> set (keys (P @ H @ D @ T)) \<longleftrightarrow> T \<noteq> []"
    using nP(3) ne H D T by (elim disjE exE) simp_all
  have "filter (\<lambda>k. k \<in> set (keys (P @ H @ D @ T))) [''hls'', ''dash'', ''http'']
      = (if H \<noteq> [] then [''hls''] else []) @ (if D \<noteq> [] then [''dash''] else [])
        @ (if T \<noteq> [] then [''http''] else [])"
    unfolding filter.simps h d t by simp
  also have "\<dots> = keys (H @ D @ T)"
    using H D T by (elim disjE exE) simp_all
  finally show ?thesis by simp
qed

lemma load_path_structure:
  assumes batch: "load_from_path path = (l, Inr batch)"
    and load: "load_path reg path = (l', Inr (reg', b))"
    and reg: "distinct (keys reg)" "set (keys reg) \<inter> fallback_names = {}"
  shows "\<exists>P R H D T. batch = P @ H @ D @ T \<and> reg' = R @ H @ D @ T \<and> R = dict_update reg P
           \<and> distinct (keys P) \<and> set (keys P) \<inter> fallback_names = {}
           \<and> distinct (keys R) \<and> set (keys R) \<inter> fallback_names = {}
           \<and> distinct (keys reg')
           \<and> (H = [] \<or> (\<exists>h. H = [(''hls'', h)]))
           \<and> (D = [] \<or> (\<exists>d. D = [(''dash'', d)]))
           \<and> (T = [] \<or> (\<exists>t. T = [(''http'', t)]))
           \<and> b = (batch \<noteq> []) \<and> l' = l"
proof -
  from batch load have reg': "reg' = dict_update reg batch" and b: "b = (batch \<noteq> [])" and l: "l' = l"
    by (auto simp: load_path_def update_def)
  from batch_structure [OF batch] obtain P H D T where
    B: "batch = P @ H @ D @ T" and dP: "distinct (keys P)" and kP: "set (keys P) \<inter> fallback_names = {}"
    and H: "H = [] \<or> (\<exists>h. H = [(''hls'', h)])"
    and D: "D = [] \<or> (\<exists>d. D = [(''dash'', d)])"
    and T: "T = [] \<or> (\<exists>t. T = [(''http'', t)])" by blast
  let ?R = "dict_update reg P"
  have dR: "distinct (keys ?R)" using reg(1) by (rule distinct_update)
  have kR: "set (keys ?R) \<inter> fallback_names = {}"
    using reg(2) kP by (auto simp: set_keys_update)
  have dF: "distinct (keys (H @ D @ T))" using H D T by auto
  have kF: "set (keys (H @ D @ T)) \<subseteq> fallback_names"
    using H D T by (auto simp: fallback_names_def)
  have "dict_update ?R (H @ D @ T) = ?R @ H @ D @ T"
    using dF kF kR by (intro dict_update_disjoint) auto
  with reg' B have R: "reg' = ?R @ H @ D @ T"
    using dict_update_append [of reg P "H @ D @ T"] by simp
  have "distinct (keys reg')" unfolding reg' using reg(1) by (rule distinct_update)
  with B R dP kP dR kR H D T b l show ?thesis by blast
qed

lemma store_plugin_logs: "store_plugin name m plugin s = (l1, s1) \<Longrightarrow> filter is_LogException l1 = []"
  by (auto simp: store_plugin_def split: if_splits)

lemma load_loop_survives:
  "\<forall>nr \<in> set path. survivable (snd nr) \<Longrightarrow>
     \<exists>l s'. load_loop path s = (l, Inr s')
       \<and> load_loop (filter (\<lambda>nr. exports_plugin (snd nr)) path) s = (filter (\<lambda>r. \<not> is_LogException r) l, Inr s')
       \<and> filter is_LogException l = map (\<lambda>nr. LogException (fst nr)) (filter (\<lambda>nr. raised (snd nr)) path)"
proof (induction path arbitrary: s)
  case Nil
  then show ?case by simp
next
  case (Cons a path)
  obtain name r where a: "a = (name, r)" by (cases a)
  from Cons.prems a have sv: "survivable r" and rest: "\<forall>nr \<in> set path. survivable (snd nr)" by auto
  show ?case
  proof (cases r)
    case (Raised err)
    with sv have ie: "is_ImportError err" by simp
    from Cons.IH [OF rest, of s] obtain l s' where
      "load_loop path s = (l, Inr s')"
      "load_loop (filter (\<lambda>nr. exports_plugin (snd nr)) path) s = (filter (\<lambda>r. \<not> is_LogException r) l, Inr s')"
      "filter is_LogException l = map (\<lambda>nr. LogException (fst nr)) (filter (\<lambda>nr. raised (snd nr)) path)"
      by blast
    with Raised ie a show ?thesis by simp
  next
    case (Loaded m)
    show ?thesis
    proof (cases "mod_plugin m")
      case (PluginClass plugin)
      obtain l1 s1 where st: "store_plugin name m plugin s = (l1, s1)"
        by (cases "store_plugin name m plugin s")
      from store_plugin_logs [OF st] have l1: "filter is_LogException l1 = []"
        "filter (\<lambda>r. \<not> is_LogException r) l1 = l1" by (auto simp: filter_empty_conv filter_id_conv)
      from Cons.IH [OF rest, of s1] obtain l s' where
        "load_loop path s1 = (l, Inr s')"
        "load_loop (filter (\<lambda>nr. exports_plugin (snd nr)) path) s1 = (filter (\<lambda>r. \<not> is_LogException r) l, Inr s')"
        "filter is_LogException l = map (\<lambda>nr. LogException (fst nr)) (filter (\<lambda>nr. raised (snd nr)) path)"
        by blast
      with Loaded PluginClass a st l1 show ?thesis by simp
    next
      case NotAClass
      with sv Loaded show ?thesis by simp
    next
      case NoAttribute
      from Cons.IH [OF rest, of s] obtain l s' where
        "load_loop path s = (l, Inr s')"
        "load_loop (filter (\<lambda>nr. exports_plugin (snd nr)) path) s = (filter (\<lambda>r. \<not> is_LogException r) l, Inr s')"
        "filter is_LogException l = map (\<lambda>nr. LogException (fst nr)) (filter (\<lambda>nr. raised (snd nr)) path)"
        by blast
      with Loaded NoAttribute a show ?thesis by simp
    next
      case OtherClass
      from Cons.IH [OF rest, of s] obtain l s' where
        "load_loop path s = (l, Inr s')"
        "load_loop (filter (\<lambda>nr. exports_plugin (snd nr)) path) s = (filter (\<lambda>r. \<not> is_LogException r) l, Inr s')"
        "filter is_LogException l = map (\<lambda>nr. LogException (fst nr)) (filter (\<lambda>nr. raised (snd nr)) path)"
        by blast
      with Loaded OtherClass a show ?thesis by simp
    qed
  qed
qed

lemma merge_fallbacks_Nil_iff:
  "merge_fallbacks s = [] \<longleftrightarrow> plugins s = [] \<and> tHls s = [] \<and> tDash s = [] \<and> tHttp s = []"
  by (auto simp: merge_fallbacks_def Let_def dict_update_Nil_iff)

lemma batch_Nil_iff:
  assumes "load_from_path path = (l, Inr batch)"
  shows "batch = [] \<longleftrightarrow> exported path = []"
proof -
  let ?s0 = "\<lparr>plugins = [], tDash = [], tHls = [], tHttp = []\<rparr> :: 'a loading"
  from assms obtain s where loop: "load_loop path ?s0 = (l, Inr s)" and B: "batch = merge_fallbacks s"
    by (auto simp: load_from_path_def split: prod.splits sum.splits)
  note C = load_loop_closed [OF loop]
  let ?ex = "exported path"
  have "batch = [] \<longleftrightarrow>
      filter (\<lambda>np. fst np \<notin> fallback_names) ?ex = [] \<and> filter (\<lambda>np. fst np = ''hls'') ?ex = []
      \<and> filter (\<lambda>np. fst np = ''dash'') ?ex = [] \<and> filter (\<lambda>np. fst np = ''http'') ?ex = []"
    unfolding B merge_fallbacks_Nil_iff using C by (simp add: dict_update_Nil_iff)
  also have "\<dots> \<longleftrightarrow> (\<forall>np \<in> set ?ex. False)"
    unfolding filter_empty_conv fallback_names_def by auto
  also have "\<dots> \<longleftrightarrow> ?ex = []" by (cases ?ex) auto
  finally show ?thesis .
qed

section \<open>Overriding an entry\<close>

lemma dict_setitem_mem:
  assumes "distinct (keys d)"
  shows "(k, v) \<in> set (dict_setitem d name new) \<longleftrightarrow> (k = name \<and> v = new) \<or> (k \<noteq> name \<and> (k, v) \<in> set d)"
proof -
  have d': "distinct (map fst (dict_setitem d name new))"
    using distinct_setitem [OF assms, of name new] by (simp add: keys_def)
  have d0: "distinct (map fst d)" using assms by (simp add: keys_def)
  have "(k, v) \<in> set (dict_setitem d name new) \<longleftrightarrow> map_of (dict_setitem d name new) k = Some v"
    using d' by simp
  also have "\<dots> \<longleftrightarrow> ((map_of d)(name \<mapsto> new)) k = Some v" by (simp add: map_of_setitem)
  also have "\<dots> \<longleftrightarrow> (k = name \<and> v = new) \<or> (k \<noteq> name \<and> (k, v) \<in> set d)"
    using d0 by auto
  finally show ?thesis .
qed

lemma find_single:
  assumes "y \<in> set xs" and "\<forall>x \<in> set xs. x \<noteq> y \<longrightarrow> \<not> Q x"
  shows "find Q xs = (if Q y then Some y else None)"
proof (cases "Q y")
  case True
  from find_in_set [of y xs Q] assms(1) True obtain z where z: "find Q xs = Some z" "z \<in> set xs" "Q z"
    by blast
  with assms(2) have "z = y" by metis
  with z True show ?thesis by simp
next
  case False
  with assms(2) have "\<forall>x \<in> set xs. \<not> Q x" by metis
  then have "find Q xs = None" by (simp add: find_None_iff)
  with False show ?thesis by simp
qed

section \<open>The store\<close>

lemma mutate_self_frame:
  "self_plugins (mutate_self f h) = self_plugins h"
  "limit (mutate_self f h) = limit h"
  "a \<noteq> self_plugins h \<Longrightarrow> dicts (mutate_self f h) a = dicts h a"
  "dicts (mutate_self f h) (self_plugins h) = f (dicts h (self_plugins h))"
  by (simp_all add: mutate_self_def)

lemma new_dict_frame:
  assumes "new_dict d h = (b, h')"
  shows "b = limit h" "limit h' = Suc (limit h)" "self_plugins h' = self_plugins h"
    "dicts h' b = d" "a < limit h \<Longrightarrow> dicts h' a = dicts h a"
  using assms by (auto simp: new_dict_def)

lemma heap_load_from_path_frame:
  assumes "heap_load_from_path path h = (l, r, h')"
  shows "self_plugins h' = self_plugins h" "limit h' = limit h + 4"
    "a < limit h \<Longrightarrow> dicts h' a = dicts h a"
    "r = Inr pa \<Longrightarrow> pa = limit h"
  using assms
  by (auto simp: heap_load_from_path_def new_dict_def split: prod.splits sum.splits)

lemma heap_load_path_frame:
  assumes "heap_load_path path h = (l, r, h')" "self_plugins h < limit h"
  shows "self_plugins h' = self_plugins h" "limit h' = limit h + 4"
    "a < limit h \<Longrightarrow> a \<noteq> self_plugins h \<Longrightarrow> dicts h' a = dicts h a"
proof -
  obtain l0 r0 h0 where L: "heap_load_from_path path h = (l0, r0, h0)"
    by (cases "heap_load_from_path path h") auto
  note F = heap_load_from_path_frame [OF L]
  show "self_plugins h' = self_plugins h" "limit h' = limit h + 4"
    using assms(1) L F(1,2)
    by (auto simp: heap_load_path_def heap_update_def mutate_self_frame split: sum.splits)
  show "dicts h' a = dicts h a" if "a < limit h" "a \<noteq> self_plugins h"
    using assms(1) L F(1) F(3) [OF that(1)] that(2)
    by (auto simp: heap_load_path_def heap_update_def mutate_self_frame split: sum.splits)
qed

lemma mutate_frame:
  assumes "self_plugins h < limit h" "a < limit h" "a \<noteq> self_plugins h"
  shows "self_plugins (mutate m h) = self_plugins h \<and> limit h \<le> limit (mutate m h)
    \<and> dicts (mutate m h) a = dicts h a"
proof (cases m)
  case (LoadPath path)
  obtain l r h' where L: "heap_load_path path h = (l, r, h')"
    by (cases "heap_load_path path h") auto
  from heap_load_path_frame [OF L assms(1)] assms(2,3) L LoadPath show ?thesis by simp
qed (use assms in \<open>simp_all add: heap_setitem_def heap_delitem_def heap_clear_def heap_update_def
      mutate_self_frame\<close>)

lemma mutations_frame:
  assumes "self_plugins h < limit h" "a < limit h" "a \<noteq> self_plugins h"
  shows "self_plugins (mutations ms h) = self_plugins h \<and> dicts (mutations ms h) a = dicts h a"
  using assms
proof (induction ms arbitrary: h)
  case Nil
  then show ?case by simp
next
  case (Cons m ms)
  from mutate_frame [OF Cons.prems, of m] have
    1: "self_plugins (mutate m h) = self_plugins h" and 2: "limit h \<le> limit (mutate m h)"
    and 3: "dicts (mutate m h) a = dicts h a" by simp_all
  from 1 2 Cons.prems have "self_plugins (mutate m h) < limit (mutate m h)"
    "a < limit (mutate m h)" "a \<noteq> self_plugins (mutate m h)" by simp_all
  from Cons.IH [OF this] 1 3 show ?case by simp
qed

text \<open>The methods on the store do to the dict of the registry what the methods on values
  do; for the load:\<close>

lemma heap_load_path_value:
  assumes "self_plugins h < limit h" "heap_load_path path h = (l, r, h')"
  shows "load_path (dicts h (self_plugins h)) path =
           (l, case r of Inl err \<Rightarrow> Inl err | Inr b \<Rightarrow> Inr (dicts h' (self_plugins h'), b))"
  using assms
  by (auto simp: heap_load_path_def heap_load_from_path_def load_path_def load_from_path_def
      new_dict_def heap_update_def mutate_self_def update_def split: prod.splits sum.splits)

section \<open>Closing a stream\<close>

lemma close_attr_returns: "fst (close_attr x) = Inr ()"
  by (auto simp: close_attr_def except_pass_def split: option.splits prod.splits sum.splits)

lemma close_returns: "fst (close s) = Inr ()"
proof -
  obtain r1 x1 where 1: "close_attr (res s) = (r1, x1)" by (cases "close_attr (res s)")
  obtain r2 x2 where 2: "close_attr (fd s) = (r2, x2)" by (cases "close_attr (fd s)")
  from close_attr_returns [of "res s"] 1 have "r1 = Inr ()" by simp
  moreover from close_attr_returns [of "fd s"] 2 have "r2 = Inr ()" by simp
  ultimately show ?thesis using 1 2 by (simp add: close_def)
qed

lemma close_times_returns: "fst (close_times n s) = Inr ()"
proof (induction n arbitrary: s)
  case 0
  then show ?case by simp
next
  case (Suc n)
  obtain r s' where c: "close s = (r, s')" by (cases "close s")
  with close_returns [of s] have "r = Inr ()" by simp
  with c Suc show ?case by simp
qed

section \<open>The example paths, evaluated\<close>

lemmas load_eval = load_from_path_def load_path_def update_def store_plugin_def merge_fallbacks_def
  plugin_module_def site_path_def fallback_path_def Let_def

lemmas match_eval = plugin_matches_def siteA_def http_plugin_def hls_plugin_def dash_plugin_def
  handler_def literal_match_def

lemma site_batch:
  "load_from_path site_path = ([], Inr [(''sitea'', siteA), (''http'', http_plugin)])"
  by (simp add: load_eval)

lemma fallback_batch:
  "load_from_path fallback_path =
     ([], Inr [(''hls'', hls_plugin), (''dash'', dash_plugin), (''http'', http_plugin)])"
  by (simp add: load_eval)

lemma site_load_empty:
  "load_path [] site_path = ([], Inr ([(''sitea'', siteA), (''http'', http_plugin)], True))"
  by (simp add: load_path_def site_batch update_def)

lemma site_load_after_http:
  "load_path [(''http'', http_plugin)] site_path =
     ([], Inr ([(''http'', http_plugin), (''sitea'', siteA)], True))"
  by (simp add: load_path_def site_batch update_def)

lemma fallback_load_empty:
  "load_path [] fallback_path =
     ([], Inr ([(''hls'', hls_plugin), (''dash'', dash_plugin), (''http'', http_plugin)], True))"
  by (simp add: load_path_def fallback_batch update_def)

lemma fallback_load_after_http:
  "load_path [(''http'', http_plugin)] fallback_path =
     ([], Inr ([(''http'', http_plugin), (''hls'', hls_plugin), (''dash'', dash_plugin)], True))"
  by (simp add: load_path_def fallback_batch update_def)

lemma all_match_sitea_url:
  "plugin_matches literal_match siteA ''https://sitea.example/video/1''"
  "plugin_matches literal_match http_plugin ''https://sitea.example/video/1''"
  "plugin_matches literal_match hls_plugin ''https://sitea.example/video/1''"
  "plugin_matches literal_match dash_plugin ''https://sitea.example/video/1''"
  by (simp_all add: match_eval)

section \<open>Claims on resolution\<close>

text \<open>
  C3. Whatever the registry and the URL, resolution returns at most one (name, handler)
  pair: its result is \<open>None\<close> or one pair. The pair it returns is the item of the registry
  at the smallest index whose handler has a matching pattern; inside one handler the
  patterns are tried in their order and the loop is left at the matcher of smallest index
  whose pattern matches. The returned handler is one whose own loop was left at a match.
\<close>

theorem match_url_first_match:
  assumes "distinct (keys reg)"
  shows "(match_url rm reg url = Inr None \<or> (\<exists>name p. match_url rm reg url = Inr (Some (name, p))))
    \<and> (\<forall>name p. match_url rm reg url = Inr (Some (name, p)) \<longleftrightarrow>
          (\<exists>i<length reg. reg ! i = (name, p) \<and> plugin_matches rm p url
             \<and> (\<forall>j<i. \<not> plugin_matches rm (snd (reg ! j)) url)))
    \<and> (\<forall>ms m. find_matcher rm url ms = Some m \<longleftrightarrow>
          (\<exists>i<length ms. ms ! i = m \<and> rm (pattern m) url
             \<and> (\<forall>j<i. \<not> rm (pattern (ms ! j)) url)))
    \<and> (\<forall>name p. match_url rm reg url = Inr (Some (name, p)) \<longrightarrow>
          (\<exists>ms m. matchers p = Some ms \<and> find_matcher rm url ms = Some m))"
proof -
  have eq: "match_url rm reg url = Inr (find (\<lambda>np. plugin_matches rm (snd np) url) reg)"
    using assms by (rule match_url_find)
  have one: "match_url rm reg url = Inr None \<or> (\<exists>name p. match_url rm reg url = Inr (Some (name, p)))"
    unfolding eq by (cases "find (\<lambda>np. plugin_matches rm (snd np) url) reg") auto
  have first: "match_url rm reg url = Inr (Some (name, p)) \<longleftrightarrow>
          (\<exists>i<length reg. reg ! i = (name, p) \<and> plugin_matches rm p url
             \<and> (\<forall>j<i. \<not> plugin_matches rm (snd (reg ! j)) url))" for name p
    unfolding eq by (simp add: find_Some_iff) (metis snd_conv)
  have inner: "find_matcher rm url ms = Some m \<longleftrightarrow>
          (\<exists>i<length ms. ms ! i = m \<and> rm (pattern m) url
             \<and> (\<forall>j<i. \<not> rm (pattern (ms ! j)) url))" for ms m
    unfolding find_matcher_find by (auto simp: find_Some_iff)
  have own: "\<exists>ms m. matchers p = Some ms \<and> find_matcher rm url ms = Some m"
    if "match_url rm reg url = Inr (Some (name, p))" for name p
  proof -
    from that first have "plugin_matches rm p url" by blast
    then obtain ms where ms: "matchers p = Some ms" and ex: "list_ex (\<lambda>m. rm (pattern m) url) ms"
      by (auto simp: plugin_matches_def split: option.splits)
    from ex have "find_matcher rm url ms \<noteq> None" by (simp add: find_matcher_None)
    with ms show ?thesis by auto
  qed
  from one first inner own show ?thesis by blast
qed

theorem match_url_first_match_witness:
  "distinct (keys [(''sitea'', siteA), (''http'', http_plugin)])
   \<and> match_url literal_match [(''sitea'', siteA), (''http'', http_plugin)] ''https://sitea.example/video/1''
       = Inr (Some (''sitea'', siteA))
   \<and> find_matcher literal_match ''https://sitea.example/video/1'' (the (matchers http_plugin))
       = Some \<lparr>pattern = ''https://'', priority = 0\<rparr>"
proof -
  let ?reg = "[(''sitea'', siteA), (''http'', http_plugin)]"
  let ?url = "''https://sitea.example/video/1''"
  have d: "distinct (keys ?reg)" by simp
  note T = match_url_first_match [OF d, of literal_match ?url]
  have m: "plugin_matches literal_match siteA ?url"
    by (simp add: plugin_matches_def siteA_def handler_def literal_match_def)
  have "\<exists>i<length ?reg. ?reg ! i = (''sitea'', siteA) \<and> plugin_matches literal_match siteA ?url
          \<and> (\<forall>j<i. \<not> plugin_matches literal_match (snd (?reg ! j)) ?url)"
    using m by (intro exI [of _ 0]) simp
  with T have r: "match_url literal_match ?reg ?url = Inr (Some (''sitea'', siteA))" by blast
  have "\<exists>i<length (the (matchers http_plugin)).
          the (matchers http_plugin) ! i = \<lparr>pattern = ''https://'', priority = 0\<rparr>
          \<and> literal_match (pattern \<lparr>pattern = ''https://'', priority = 0\<rparr>) ?url
          \<and> (\<forall>j<i. \<not> literal_match (pattern (the (matchers http_plugin) ! j)) ?url)"
    by (intro exI [of _ 1]) (simp add: http_plugin_def handler_def literal_match_def)
  with T have f: "find_matcher literal_match ?url (the (matchers http_plugin))
       = Some \<lparr>pattern = ''https://'', priority = 0\<rparr>" by blast
  from d r f show ?thesis by blast
qed

text \<open>
  C4. Whatever the registry and the URL, resolution returns a value, it never raises (the
  only statement of \<^verbatim>\<open>match_url\<close> that could, the lookup \<^verbatim>\<open>self._plugins[name]\<close>, is
  always given a key of the dict); and when no registered handler has a pattern matching
  the URL, the value returned is \<open>None\<close>.
\<close>

theorem match_url_no_match_none:
  "(\<exists>res. match_url rm reg url = Inr res)
   \<and> ((\<forall>np \<in> set reg. \<not> plugin_matches rm (snd np) url) \<longrightarrow> match_url rm reg url = Inr None)"
proof -
  have "match_url rm reg url = Inr None" if "\<forall>np \<in> set reg. \<not> plugin_matches rm (snd np) url"
    using that by (intro match_url_no_match) (simp add: list_ex_iff)
  with match_url_returns [of rm reg url] show ?thesis by blast
qed

theorem match_url_no_match_none_witness:
  "\<not> plugin_matches literal_match siteA ''ftp://unrelated/path''
   \<and> \<not> plugin_matches literal_match http_plugin ''ftp://unrelated/path''
   \<and> match_url literal_match [(''sitea'', siteA), (''http'', http_plugin)] ''ftp://unrelated/path''
       = Inr None"
proof -
  have a: "\<not> plugin_matches literal_match siteA ''ftp://unrelated/path''"
    by (simp add: plugin_matches_def siteA_def handler_def literal_match_def)
  have b: "\<not> plugin_matches literal_match http_plugin ''ftp://unrelated/path''"
    by (simp add: plugin_matches_def http_plugin_def handler_def literal_match_def)
  from a b have h: "\<forall>np \<in> set [(''sitea'', siteA), (''http'', http_plugin)].
       \<not> plugin_matches literal_match (snd np) ''ftp://unrelated/path''"
    by simp
  with match_url_no_match_none [of literal_match "[(''sitea'', siteA), (''http'', http_plugin)]"
      "''ftp://unrelated/path''"]
  have "match_url literal_match [(''sitea'', siteA), (''http'', http_plugin)] ''ftp://unrelated/path''
       = Inr None" by blast
  with a b show ?thesis by blast
qed

section \<open>Claims on the order of a batch\<close>

text \<open>
  C1 (as amended). Take a load from a path into a registry that holds none of the names
  \<^verbatim>\<open>dash\<close>, \<^verbatim>\<open>hls\<close>, \<^verbatim>\<open>http\<close> before the load (an empty registry in particular), and let the
  batch hold, under a name \<open>S\<close> other than these three, a handler that matches the URL. Then
  in the registry after the load every other name stands before the fallback names, which
  come last in the order \<^verbatim>\<open>hls\<close>, \<^verbatim>\<open>dash\<close>, \<^verbatim>\<open>http\<close>; resolution returns a handler that matches
  the URL under a name that is none of the three, so never \<^verbatim>\<open>http\<close>; and it returns the
  handler of \<open>S\<close> itself when no other non-fallback handler of the registry matches the URL.
\<close>

theorem batch_specific_before_fallback:
  assumes batch: "load_from_path path = (l, Inr batch)"
    and load: "load_path reg path = (l, Inr (reg', b))"
    and reg: "distinct (keys reg)" "set (keys reg) \<inter> fallback_names = {}"
    and S: "map_of batch S = Some p" "S \<notin> fallback_names" "plugin_matches rm p url"
  shows "(\<exists>xs. keys reg' = xs @ filter (\<lambda>k. k \<in> set (keys batch)) [''hls'', ''dash'', ''http'']
              \<and> set xs \<inter> fallback_names = {})
    \<and> (\<exists>n q. match_url rm reg' url = Inr (Some (n, q)) \<and> n \<notin> fallback_names
              \<and> plugin_matches rm q url)
    \<and> ((\<forall>n q. (n, q) \<in> set reg' \<and> n \<notin> fallback_names \<and> plugin_matches rm q url \<longrightarrow> n = S)
          \<longrightarrow> match_url rm reg' url = Inr (Some (S, p)))"
proof -
  from load_path_structure [OF batch load reg] obtain P R H D T where
    B: "batch = P @ H @ D @ T" and R': "reg' = R @ H @ D @ T" and R: "R = dict_update reg P"
    and dP: "distinct (keys P)" and kP: "set (keys P) \<inter> fallback_names = {}"
    and dR: "distinct (keys R)" and kR: "set (keys R) \<inter> fallback_names = {}"
    and d': "distinct (keys reg')"
    and H: "H = [] \<or> (\<exists>h. H = [(''hls'', h)])"
    and D: "D = [] \<or> (\<exists>d. D = [(''dash'', d)])"
    and T: "T = [] \<or> (\<exists>t. T = [(''http'', t)])" by blast
  let ?Q = "\<lambda>np. plugin_matches rm (snd np) url"
  \<comment> \<open>the order of the names\<close>
  have kF: "keys (H @ D @ T) = filter (\<lambda>k. k \<in> set (keys batch)) [''hls'', ''dash'', ''http'']"
    unfolding B using kP H D T by (rule fallback_keys_order)
  have order: "\<exists>xs. keys reg' = xs @ filter (\<lambda>k. k \<in> set (keys batch)) [''hls'', ''dash'', ''http'']
              \<and> set xs \<inter> fallback_names = {}"
    using kF kR unfolding R' by (intro exI [of _ "keys R"]) simp
  \<comment> \<open>the specific handler is an item of the front part\<close>
  from S(1) have "(S, p) \<in> set batch" by (rule map_of_SomeD)
  with S(2) H D T have inP: "(S, p) \<in> set P"
    unfolding B by (auto simp: fallback_names_def)
  moreover from dP have "distinct (map fst (rev P))" by (metis distinct_rev rev_map keys_def)
  ultimately have "map_of (rev P) S = Some p" by simp
  then have "map_of R S = Some p" unfolding R by (simp add: map_of_update)
  then have inR: "(S, p) \<in> set R" by (rule map_of_SomeD)
  from find_in_set [of "(S, p)" R ?Q] inR S(3)
  obtain y where y: "find ?Q R = Some y" "y \<in> set R" "?Q y" by auto
  obtain n q where nq: "y = (n, q)" by (cases y)
  from y(1) have "find ?Q reg' = Some y" unfolding R' by (rule find_append_first)
  with d' nq have res: "match_url rm reg' url = Inr (Some (n, q))"
    by (simp add: match_url_find)
  from y(2) nq have "n \<in> set (keys R)" by (force simp: keys_def)
  with kR have n: "n \<notin> fallback_names" by auto
  from y(3) nq have q: "plugin_matches rm q url" by simp
  have only: "match_url rm reg' url = Inr (Some (S, p))"
    if u: "\<forall>n q. (n, q) \<in> set reg' \<and> n \<notin> fallback_names \<and> plugin_matches rm q url \<longrightarrow> n = S"
  proof -
    from y(2) nq have "(n, q) \<in> set reg'" unfolding R' by simp
    with u n q have "n = S" by blast
    with y(2) nq inR dR have "q = p" by (metis map_of_eq_Some_iff option.inject keys_def)
    with res \<open>n = S\<close> show ?thesis by simp
  qed
  from order res n q only show ?thesis by blast
qed

theorem batch_specific_before_fallback_witness:
  "load_from_path site_path = ([], Inr [(''sitea'', siteA), (''http'', http_plugin)])
   \<and> load_path [] site_path = ([], Inr ([(''sitea'', siteA), (''http'', http_plugin)], True))
   \<and> map_of [(''sitea'', siteA), (''http'', http_plugin)] ''sitea'' = Some siteA
   \<and> ''sitea'' \<notin> fallback_names
   \<and> plugin_matches literal_match siteA ''https://sitea.example/video/1''
   \<and> plugin_matches literal_match http_plugin ''https://sitea.example/video/1''
   \<and> match_url literal_match [(''sitea'', siteA), (''http'', http_plugin)]
         ''https://sitea.example/video/1'' = Inr (Some (''sitea'', siteA))"
proof -
  let ?reg' = "[(''sitea'', siteA), (''http'', http_plugin)]"
  let ?url = "''https://sitea.example/video/1''"
  have r: "distinct (keys ([] :: string registry))"
    "set (keys ([] :: string registry)) \<inter> fallback_names = {}" by simp_all
  have S: "map_of ?reg' ''sitea'' = Some siteA" "''sitea'' \<notin> fallback_names"
    by (simp_all add: fallback_names_def)
  note T = batch_specific_before_fallback [OF site_batch site_load_empty r S all_match_sitea_url(1)]
  have "\<forall>n q. (n, q) \<in> set ?reg' \<and> n \<notin> fallback_names \<and> plugin_matches literal_match q ?url
          \<longrightarrow> n = ''sitea''"
    by (auto simp: fallback_names_def)
  with T have "match_url literal_match ?reg' ?url = Inr (Some (''sitea'', siteA))" by blast
  with site_batch site_load_empty S all_match_sitea_url(1,2) show ?thesis by blast
qed

text \<open>
  C1 as stated fails when the registry already holds \<^verbatim>\<open>http\<close>, as it does after
  \<^verbatim>\<open>load_builtin\<close>: \<^verbatim>\<open>update\<close> leaves the existing key \<^verbatim>\<open>http\<close> in its place and appends the
  new name \<^verbatim>\<open>sitea\<close> behind it. The batch holds \<^verbatim>\<open>sitea\<close> and \<^verbatim>\<open>http\<close>, both match the URL,
  and resolution after the load returns \<^verbatim>\<open>http\<close>.
\<close>

theorem batch_specific_before_fallback_counterexample:
  "load_from_path site_path = ([], Inr [(''sitea'', siteA), (''http'', http_plugin)])
   \<and> plugin_matches literal_match siteA ''https://sitea.example/video/1''
   \<and> plugin_matches literal_match http_plugin ''https://sitea.example/video/1''
   \<and> load_path [(''http'', http_plugin)] site_path =
         ([], Inr ([(''http'', http_plugin), (''sitea'', siteA)], True))
   \<and> match_url literal_match [(''http'', http_plugin), (''sitea'', siteA)]
         ''https://sitea.example/video/1'' = Inr (Some (''http'', http_plugin))
   \<and> match_url literal_match [(''http'', http_plugin), (''sitea'', siteA)]
         ''https://sitea.example/video/1'' \<noteq> Inr (Some (''sitea'', siteA))"
proof -
  have "match_url literal_match [(''http'', http_plugin), (''sitea'', siteA)]
         ''https://sitea.example/video/1'' = Inr (Some (''http'', http_plugin))"
    by (simp add: match_url_def dict_getitem_def match_eval)
  with site_batch site_load_after_http all_match_sitea_url(1,2) show ?thesis by simp
qed

text \<open>
  C2 (as amended). Take a load from a path into a registry that holds none of the names
  \<^verbatim>\<open>dash\<close>, \<^verbatim>\<open>hls\<close>, \<^verbatim>\<open>http\<close> and no handler matching the URL before the load (an empty
  registry in particular), and let the batch hold exactly the three fallback handlers, all
  of them matching the URL. Then the batch has them in the order \<^verbatim>\<open>hls\<close>, \<^verbatim>\<open>dash\<close>, \<^verbatim>\<open>http\<close>,
  they are appended to the registry in that order, and resolution returns \<^verbatim>\<open>hls\<close> with the
  handler the batch holds under that name.
\<close>

theorem batch_fallbacks_in_order:
  assumes batch: "load_from_path path = (l, Inr batch)"
    and load: "load_path reg path = (l, Inr (reg', b))"
    and reg: "distinct (keys reg)" "set (keys reg) \<inter> fallback_names = {}"
      "\<forall>np \<in> set reg. \<not> plugin_matches rm (snd np) url"
    and only: "set (keys batch) = {''dash'', ''hls'', ''http''}"
    and all: "\<forall>np \<in> set batch. plugin_matches rm (snd np) url"
  shows "keys batch = [''hls'', ''dash'', ''http'']
    \<and> keys reg' = keys reg @ [''hls'', ''dash'', ''http'']
    \<and> (\<exists>h. map_of batch ''hls'' = Some h \<and> match_url rm reg' url = Inr (Some (''hls'', h)))"
proof -
  from load_path_structure [OF batch load reg(1,2)] obtain P R H D T where
    B: "batch = P @ H @ D @ T" and R': "reg' = R @ H @ D @ T" and R: "R = dict_update reg P"
    and kP: "set (keys P) \<inter> fallback_names = {}"
    and d': "distinct (keys reg')"
    and H: "H = [] \<or> (\<exists>h. H = [(''hls'', h)])"
    and D: "D = [] \<or> (\<exists>d. D = [(''dash'', d)])"
    and T: "T = [] \<or> (\<exists>t. T = [(''http'', t)])" by blast
  let ?Q = "\<lambda>np. plugin_matches rm (snd np) url"
  have "set (keys P) \<subseteq> set (keys batch)" unfolding B by auto
  then have "set (keys P) \<subseteq> fallback_names" unfolding only fallback_names_def .
  with kP have "keys P = []" by (cases "keys P") auto
  then have P: "P = []" by (simp add: keys_def)
  have k: "keys (H @ D @ T) = filter (\<lambda>k. k \<in> set (keys batch)) [''hls'', ''dash'', ''http'']"
    unfolding B using kP H D T by (rule fallback_keys_order)
  have "filter (\<lambda>k. k \<in> set (keys batch)) [''hls'', ''dash'', ''http''] = [''hls'', ''dash'', ''http'']"
    unfolding only by simp
  with k have "keys (H @ D @ T) = [''hls'', ''dash'', ''http'']" by simp
  then have kB: "keys batch = [''hls'', ''dash'', ''http'']"
    unfolding B P by simp
  have "''hls'' \<in> set (keys batch)" unfolding only by simp
  then have "''hls'' \<in> set (keys H)" unfolding B P using D T by auto
  with H obtain h where Hh: "H = [(''hls'', h)]" by auto
  from P R have RR: "R = reg" by simp
  have kR: "keys reg' = keys reg @ [''hls'', ''dash'', ''http'']"
    using kB unfolding R' RR B P by simp
  have mh: "map_of batch ''hls'' = Some h" unfolding B P Hh by simp
  from all Hh have "plugin_matches rm h url" unfolding B by simp
  then have "find ?Q (H @ D @ T) = Some (''hls'', h)" unfolding Hh by simp
  moreover from reg(3) have "find ?Q reg = None" by (force simp: find_None_iff)
  ultimately have "find ?Q reg' = Some (''hls'', h)"
    unfolding R' RR by (simp add: find_append_none)
  with d' have "match_url rm reg' url = Inr (Some (''hls'', h))" by (simp add: match_url_find)
  with kB kR mh show ?thesis by blast
qed

theorem batch_fallbacks_in_order_witness:
  "load_from_path fallback_path =
     ([], Inr [(''hls'', hls_plugin), (''dash'', dash_plugin), (''http'', http_plugin)])
   \<and> load_path [] fallback_path =
     ([], Inr ([(''hls'', hls_plugin), (''dash'', dash_plugin), (''http'', http_plugin)], True))
   \<and> plugin_matches literal_match hls_plugin ''https://sitea.example/video/1''
   \<and> plugin_matches literal_match dash_plugin ''https://sitea.example/video/1''
   \<and> plugin_matches literal_match http_plugin ''https://sitea.example/video/1''
   \<and> match_url literal_match [(''hls'', hls_plugin), (''dash'', dash_plugin), (''http'', http_plugin)]
         ''https://sitea.example/video/1'' = Inr (Some (''hls'', hls_plugin))"
proof -
  let ?batch = "[(''hls'', hls_plugin), (''dash'', dash_plugin), (''http'', http_plugin)]"
  let ?url = "''https://sitea.example/video/1''"
  have r: "distinct (keys ([] :: string registry))"
    "set (keys ([] :: string registry)) \<inter> fallback_names = {}"
    "\<forall>np \<in> set ([] :: string registry). \<not> plugin_matches literal_match (snd np) ?url"
    by simp_all
  have only: "set (keys ?batch) = {''dash'', ''hls'', ''http''}" by auto
  have all: "\<forall>np \<in> set ?batch. plugin_matches literal_match (snd np) ?url"
    using all_match_sitea_url by simp
  note T = batch_fallbacks_in_order [OF fallback_batch fallback_load_empty r only all]
  then obtain h where "map_of ?batch ''hls'' = Some h"
    and "match_url literal_match ?batch ?url = Inr (Some (''hls'', h))" by blast
  then have "match_url literal_match ?batch ?url = Inr (Some (''hls'', hls_plugin))" by simp
  with fallback_batch fallback_load_empty all_match_sitea_url(2,3,4) show ?thesis by blast
qed

text \<open>
  C2 as stated fails when the registry already holds \<^verbatim>\<open>http\<close>: the key keeps its place in
  front of the appended \<^verbatim>\<open>hls\<close> and \<^verbatim>\<open>dash\<close>, and resolution of a URL that all three match
  returns \<^verbatim>\<open>http\<close>.
\<close>

theorem batch_fallbacks_in_order_counterexample:
  "load_from_path fallback_path =
     ([], Inr [(''hls'', hls_plugin), (''dash'', dash_plugin), (''http'', http_plugin)])
   \<and> plugin_matches literal_match hls_plugin ''https://sitea.example/video/1''
   \<and> plugin_matches literal_match dash_plugin ''https://sitea.example/video/1''
   \<and> plugin_matches literal_match http_plugin ''https://sitea.example/video/1''
   \<and> load_path [(''http'', http_plugin)] fallback_path =
     ([], Inr ([(''http'', http_plugin), (''hls'', hls_plugin), (''dash'', dash_plugin)], True))
   \<and> match_url literal_match [(''http'', http_plugin), (''hls'', hls_plugin), (''dash'', dash_plugin)]
         ''https://sitea.example/video/1'' = Inr (Some (''http'', http_plugin))
   \<and> match_url literal_match [(''http'', http_plugin), (''hls'', hls_plugin), (''dash'', dash_plugin)]
         ''https://sitea.example/video/1'' \<noteq> Inr (Some (''hls'', hls_plugin))"
proof -
  have "match_url literal_match [(''http'', http_plugin), (''hls'', hls_plugin), (''dash'', dash_plugin)]
         ''https://sitea.example/video/1'' = Inr (Some (''http'', http_plugin))"
    by (simp add: match_url_def dict_getitem_def match_eval)
  with fallback_batch fallback_load_after_http all_match_sitea_url(2,3,4) show ?thesis by simp
qed

section \<open>Claims on loading\<close>

text \<open>
  C5 (as amended). When every module of the path either fails with \<open>ImportError\<close> (or a
  subclass of it), or has no \<^verbatim>\<open>__plugin__\<close> attribute, or has a class as \<^verbatim>\<open>__plugin__\<close>, the
  load returns and does not raise. Each module that failed with \<open>ImportError\<close> is logged
  with \<^verbatim>\<open>log.exception\<close>, once and in the order of discovery, and nothing else is logged
  that way; these modules, the modules without \<^verbatim>\<open>__plugin__\<close> and those whose class is not
  a handler contribute nothing: the batch, and the rest of the log, are those of the path
  with only the modules that export a handler class.
\<close>

theorem load_survives_import_errors:
  assumes "\<forall>nr \<in> set path. survivable (snd nr)"
  shows "\<exists>l batch. load_from_path path = (l, Inr batch)
     \<and> load_path reg path = (l, Inr (update reg batch, batch \<noteq> []))
     \<and> load_from_path (filter (\<lambda>nr. exports_plugin (snd nr)) path)
          = (filter (\<lambda>r. \<not> is_LogException r) l, Inr batch)
     \<and> filter is_LogException l
          = map (\<lambda>nr. LogException (fst nr)) (filter (\<lambda>nr. raised (snd nr)) path)"
proof -
  let ?s0 = "\<lparr>plugins = [], tDash = [], tHls = [], tHttp = []\<rparr> :: 'a loading"
  from load_loop_survives [OF assms, of ?s0] obtain l s' where
    1: "load_loop path ?s0 = (l, Inr s')"
    and 2: "load_loop (filter (\<lambda>nr. exports_plugin (snd nr)) path) ?s0 = (filter (\<lambda>r. \<not> is_LogException r) l, Inr s')"
    and 3: "filter is_LogException l = map (\<lambda>nr. LogException (fst nr)) (filter (\<lambda>nr. raised (snd nr)) path)"
    by blast
  from 1 have a: "load_from_path path = (l, Inr (merge_fallbacks s'))"
    by (simp add: load_from_path_def)
  from 2 have b: "load_from_path (filter (\<lambda>nr. exports_plugin (snd nr)) path)
      = (filter (\<lambda>r. \<not> is_LogException r) l, Inr (merge_fallbacks s'))"
    by (simp add: load_from_path_def)
  from a have c: "load_path reg path = (l, Inr (update reg (merge_fallbacks s'), merge_fallbacks s' \<noteq> []))"
    by (simp add: load_path_def)
  from a b c 3 show ?thesis by blast
qed

theorem load_survives_import_errors_witness:
  "survivable (Raised ImportError :: string exec_result)
   \<and> survivable (Loaded \<lparr>mod_file = ''empty.py'', mod_plugin = NoAttribute :: string plugin_attr\<rparr>)
   \<and> survivable (Loaded \<lparr>mod_file = ''other.py'', mod_plugin = OtherClass :: string plugin_attr\<rparr>)
   \<and> survivable (plugin_module ''sitea.py'' siteA)
   \<and> load_path [] mixed_path = ([LogException ''broken''], Inr ([(''sitea'', siteA)], True))"
proof -
  have h: "\<forall>nr \<in> set mixed_path. survivable (snd nr)"
    by (simp add: mixed_path_def plugin_module_def)
  from load_survives_import_errors [OF h, of "[]"] obtain l batch where
    a: "load_from_path mixed_path = (l, Inr batch)"
    and b: "load_path [] mixed_path = (l, Inr (update [] batch, batch \<noteq> []))" by blast
  have "load_from_path mixed_path = ([LogException ''broken''], Inr [(''sitea'', siteA)])"
    by (simp add: load_eval mixed_path_def)
  with a have "l = [LogException ''broken'']" "batch = [(''sitea'', siteA)]" by simp_all
  with b have "load_path [] mixed_path = ([LogException ''broken''], Inr ([(''sitea'', siteA)], True))"
    by (simp add: update_def)
  then show ?thesis by (simp add: plugin_module_def)
qed

text \<open>
  C5 as stated fails: \<^verbatim>\<open>_load_plugin_from_finder\<close> catches \<open>ImportError\<close> only. A module
  whose execution raises \<open>SyntaxError\<close>, and a module whose \<^verbatim>\<open>__plugin__\<close> is not a class
  (\<^verbatim>\<open>issubclass\<close> raises \<open>TypeError\<close>), make the whole load raise; nothing is logged and
  the module \<^verbatim>\<open>sitea\<close> behind them is not loaded.
\<close>

theorem load_survives_import_errors_counterexample:
  "load_path [] broken_path = ([], Inl SyntaxError)
   \<and> load_path [] bad_export_path = ([], Inl TypeError)"
  by (simp add: load_eval broken_path_def bad_export_path_def)

text \<open>
  C6 (as amended). When a load from a path returns, it returns true exactly when the batch
  it built is not empty, that is when at least one module of the path exported a handler
  class, whether or not that handler was in the registry before; the registry is updated
  with that batch.
\<close>

theorem load_path_result:
  assumes "load_path reg path = (l, Inr (reg', b))"
  shows "(b \<longleftrightarrow> exported path \<noteq> [])
    \<and> (\<exists>batch. load_from_path path = (l, Inr batch) \<and> reg' = update reg batch \<and> (b \<longleftrightarrow> batch \<noteq> []))"
proof -
  from assms obtain batch where B: "load_from_path path = (l, Inr batch)"
    and r: "reg' = update reg batch" and b: "b \<longleftrightarrow> batch \<noteq> []"
    by (auto simp: load_path_def split: prod.splits sum.splits)
  from batch_Nil_iff [OF B] b have "b \<longleftrightarrow> exported path \<noteq> []" by simp
  with B r b show ?thesis by blast
qed

theorem load_path_result_witness:
  "load_path [] site_path = ([], Inr ([(''sitea'', siteA), (''http'', http_plugin)], True))
   \<and> exported site_path \<noteq> []"
proof -
  from load_path_result [OF site_load_empty] have "exported site_path \<noteq> []" by blast
  with site_load_empty show ?thesis by blast
qed

text \<open>
  C6 as stated fails on a second load of the same path: every handler of the batch is in
  the registry already, the registry after the load is the registry before it, and the
  load still returns true.
\<close>

theorem load_path_result_counterexample:
  "load_path [(''sitea'', siteA), (''http'', http_plugin)] site_path =
     ([], Inr ([(''sitea'', siteA), (''http'', http_plugin)], True))"
  by (simp add: load_path_def site_batch update_def)

section \<open>Claims on single entries and on names\<close>

text \<open>
  C7. Registering a handler under a name that is registered already replaces the handler
  of that name and is no error: the names and their order stay as they were, every name
  still stands once, the name now gives the new handler and every other name its old one.
  Afterwards, for a URL that no handler under another name matches (so that at most the
  old definition matched it), resolution returns the new handler if its patterns match the
  URL and \<open>None\<close> otherwise.
\<close>

theorem setitem_overrides:
  assumes "distinct (keys reg)" and "map_of reg name = Some old"
  shows "keys (setitem reg name new) = keys reg
    \<and> distinct (keys (setitem reg name new))
    \<and> getitem (setitem reg name new) name = Inr new
    \<and> (\<forall>k. k \<noteq> name \<longrightarrow> getitem (setitem reg name new) k = getitem reg k)
    \<and> ((\<forall>np \<in> set reg. fst np \<noteq> name \<longrightarrow> \<not> plugin_matches rm (snd np) url) \<longrightarrow>
          match_url rm (setitem reg name new) url
            = (if plugin_matches rm new url then Inr (Some (name, new)) else Inr None))"
proof -
  let ?reg' = "setitem reg name new"
  from assms(2) have "name \<in> fst ` set reg" by (metis map_of_eq_None_iff option.distinct(1))
  then have mem: "name \<in> set (keys reg)" by (simp add: keys_def)
  then have k: "keys ?reg' = keys reg" by (simp add: setitem_def keys_setitem)
  with assms(1) have d: "distinct (keys ?reg')" by simp
  have g: "getitem ?reg' name = Inr new"
    by (simp add: getitem_def setitem_def dict_getitem_def map_of_setitem)
  have o: "\<forall>k. k \<noteq> name \<longrightarrow> getitem ?reg' k = getitem reg k"
    by (simp add: getitem_def setitem_def dict_getitem_def map_of_setitem)
  have m: "match_url rm ?reg' url = (if plugin_matches rm new url then Inr (Some (name, new)) else Inr None)"
    if only: "\<forall>np \<in> set reg. fst np \<noteq> name \<longrightarrow> \<not> plugin_matches rm (snd np) url"
  proof -
    let ?Q = "\<lambda>np. plugin_matches rm (snd np) url"
    have in': "(name, new) \<in> set ?reg'"
      unfolding setitem_def using dict_setitem_mem [OF assms(1), of name new name new] by simp
    have "\<forall>x \<in> set ?reg'. x \<noteq> (name, new) \<longrightarrow> \<not> ?Q x"
    proof (intro ballI impI)
      fix x assume x: "x \<in> set ?reg'" "x \<noteq> (name, new)"
      obtain k v where kv: "x = (k, v)" by (cases x)
      with x have "k \<noteq> name \<and> (k, v) \<in> set reg"
        unfolding setitem_def using dict_setitem_mem [OF assms(1), of k v name new] by auto
      with only kv show "\<not> ?Q x" by force
    qed
    from find_single [OF in' this] have "find ?Q ?reg' = (if ?Q (name, new) then Some (name, new) else None)" .
    with d show ?thesis by (simp add: match_url_find)
  qed
  from k d g o m show ?thesis by blast
qed

theorem setitem_overrides_witness:
  "distinct (keys [(''sitea'', siteA), (''siteb'', siteB)])
   \<and> map_of [(''sitea'', siteA), (''siteb'', siteB)] ''sitea'' = Some siteA
   \<and> match_url literal_match [(''sitea'', siteA), (''siteb'', siteB)] ''https://sitea.example/video/1''
        = Inr (Some (''sitea'', siteA))
   \<and> \<not> plugin_matches literal_match siteB ''https://sitea.example/video/1''
   \<and> \<not> plugin_matches literal_match siteA2 ''https://sitea.example/video/1''
   \<and> match_url literal_match (setitem [(''sitea'', siteA), (''siteb'', siteB)] ''sitea'' siteA2)
        ''https://sitea.example/video/1'' = Inr None"
proof -
  let ?reg = "[(''sitea'', siteA), (''siteb'', siteB)]"
  let ?url = "''https://sitea.example/video/1''"
  have d: "distinct (keys ?reg)" and m: "map_of ?reg ''sitea'' = Some siteA" by simp_all
  have old: "match_url literal_match ?reg ?url = Inr (Some (''sitea'', siteA))"
    by (simp add: match_url_def dict_getitem_def match_eval)
  have nb: "\<not> plugin_matches literal_match siteB ?url"
    and n2: "\<not> plugin_matches literal_match siteA2 ?url"
    by (simp_all add: match_eval siteB_def siteA2_def)
  from nb have only: "\<forall>np \<in> set ?reg. fst np \<noteq> ''sitea'' \<longrightarrow> \<not> plugin_matches literal_match (snd np) ?url"
    by simp
  from setitem_overrides [OF d m, of siteA2 literal_match ?url] only n2
  have "match_url literal_match (setitem ?reg ''sitea'' siteA2) ?url = Inr None" by simp
  with d m old nb n2 show ?thesis by blast
qed

text \<open>
  C10. The list of names is in strictly ascending lexicographic order (characters compared
  by their codes), holds the registered names and each of them once, and depends on the set
  of registered names only, not on the order in which they stand in the registry.
\<close>

theorem get_names_sorted:
  assumes "distinct (keys reg)"
  shows "sorted (get_names reg) \<and> distinct (get_names reg)
    \<and> set (get_names reg) = set (keys reg) \<and> length (get_names reg) = length reg
    \<and> (\<forall>i j. i < j \<and> j < length reg \<longrightarrow>
          (get_names reg ! i, get_names reg ! j) \<in> lexord {(c, d). (of_char c :: nat) < of_char d})
    \<and> (\<forall>reg' :: 'a registry. distinct (keys reg') \<and> set (keys reg') = set (keys reg)
          \<longrightarrow> get_names reg' = get_names reg)"
proof -
  have s: "sorted (get_names reg)" and d: "distinct (get_names reg)"
    and e: "set (get_names reg) = set (keys reg)" and l: "length (get_names reg) = length reg"
    using assms by (simp_all add: get_names_def keys_def)
  have lex: "(get_names reg ! i, get_names reg ! j) \<in> lexord {(c, d). (of_char c :: nat) < of_char d}"
    if "i < j" "j < length reg" for i j
  proof -
    from that l have ij: "i < j" "j < length (get_names reg)" by simp_all
    with s have "get_names reg ! i \<le> get_names reg ! j" by (simp add: sorted_iff_nth_mono)
    moreover from ij d have "get_names reg ! i \<noteq> get_names reg ! j"
      by (simp add: nth_eq_iff_index_eq)
    ultimately have "get_names reg ! i < get_names reg ! j" by simp
    then show ?thesis by (simp add: list_less_def less_char_def)
  qed
  have ind: "get_names reg' = get_names reg"
    if "distinct (keys reg')" "set (keys reg') = set (keys reg)" for reg' :: "'a registry"
  proof -
    from that have "sorted (get_names reg')" "distinct (get_names reg')"
      "set (get_names reg') = set (get_names reg)"
      by (simp_all add: get_names_def)
    with s d show ?thesis by (intro sorted_distinct_set_unique)
  qed
  from s d e l lex ind show ?thesis by blast
qed

theorem get_names_sorted_witness:
  "distinct (keys [(''sitea'', siteA), (''hls'', hls_plugin), (''dash'', dash_plugin), (''http'', http_plugin)])
   \<and> get_names [(''sitea'', siteA), (''hls'', hls_plugin), (''dash'', dash_plugin), (''http'', http_plugin)]
        = [''dash'', ''hls'', ''http'', ''sitea'']
   \<and> get_names [(''http'', http_plugin), (''dash'', dash_plugin), (''sitea'', siteA), (''hls'', hls_plugin)]
        = [''dash'', ''hls'', ''http'', ''sitea'']"
proof -
  let ?reg = "[(''sitea'', siteA), (''hls'', hls_plugin), (''dash'', dash_plugin), (''http'', http_plugin)]"
  let ?reg' = "[(''http'', http_plugin), (''dash'', dash_plugin), (''sitea'', siteA), (''hls'', hls_plugin)]"
  have d: "distinct (keys ?reg)" by simp
  note T = get_names_sorted [OF d]
  from T have "sorted (get_names ?reg)" "distinct (get_names ?reg)"
    "set (get_names ?reg) = set (keys ?reg)" by blast+
  moreover have "sorted [''dash'', ''hls'', ''http'', ''sitea'']" by code_simp
  moreover have "distinct [''dash'', ''hls'', ''http'', ''sitea'']" by simp
  moreover have "set (keys ?reg) = set [''dash'', ''hls'', ''http'', ''sitea'']" by auto
  ultimately have n: "get_names ?reg = [''dash'', ''hls'', ''http'', ''sitea'']"
    by (intro sorted_distinct_set_unique) simp_all
  have "distinct (keys ?reg') \<and> set (keys ?reg') = set (keys ?reg)" by auto
  with T have "get_names ?reg' = get_names ?reg" by blast
  with d n show ?thesis by simp
qed

section \<open>Claims on the snapshot and on the stream\<close>

text \<open>
  C8. The mapping that \<^verbatim>\<open>get_loaded\<close> returns is a new dict object, not the dict of the
  registry: its address differs from the one in \<^verbatim>\<open>self._plugins\<close>, it holds the items the
  registry had at the call, and the call leaves the registry as it was. Whatever
  mutations of the registry follow (registering, removing, clearing, updating from a
  mapping, loading a path, in any number and order), the returned dict keeps these items.
\<close>

theorem get_loaded_is_copy:
  assumes "self_plugins h < limit h" and "heap_get_loaded h = (a, h1)"
  shows "a \<noteq> self_plugins h1
    \<and> self_plugins h1 = self_plugins h
    \<and> dicts h1 a = dicts h (self_plugins h)
    \<and> dicts h1 (self_plugins h1) = dicts h (self_plugins h)
    \<and> (\<forall>ms. dicts (mutations ms h1) a = dicts h (self_plugins h))"
proof -
  from assms(2) have N: "new_dict (dicts h (self_plugins h)) h = (a, h1)"
    by (simp add: heap_get_loaded_def)
  note F = new_dict_frame [OF N]
  from F(1,3) assms(1) have ne: "a \<noteq> self_plugins h1" by simp
  from F(1,2,3) assms(1) have wf: "self_plugins h1 < limit h1" "a < limit h1" by simp_all
  from F(5) [OF assms(1)] F(3) have s: "dicts h1 (self_plugins h1) = dicts h (self_plugins h)" by simp
  have "dicts (mutations ms h1) a = dicts h (self_plugins h)" for ms
    using mutations_frame [OF wf ne, of ms] F(4) by simp
  with ne F(3,4) s show ?thesis by blast
qed

theorem get_loaded_is_copy_witness:
  "self_plugins (heap_setitem ''sitea'' siteA heap_init) < limit (heap_setitem ''sitea'' siteA heap_init)
   \<and> fst (heap_get_loaded (heap_setitem ''sitea'' siteA heap_init)) = 1
   \<and> dicts (mutations [Clear, Register ''http'' http_plugin, LoadPath site_path]
              (snd (heap_get_loaded (heap_setitem ''sitea'' siteA heap_init)))) 1
        = [(''sitea'', siteA)]
   \<and> dicts (mutations [Clear, Register ''http'' http_plugin]
              (snd (heap_get_loaded (heap_setitem ''sitea'' siteA heap_init)))) 0
        = [(''http'', http_plugin)]"
proof -
  let ?h = "heap_setitem ''sitea'' siteA (heap_init :: string heap)"
  have wf: "self_plugins ?h < limit ?h"
    by (simp add: heap_init_def heap_setitem_def mutate_self_def)
  have g: "heap_get_loaded ?h = (1, snd (heap_get_loaded ?h))"
    by (simp add: heap_get_loaded_def new_dict_def heap_init_def heap_setitem_def mutate_self_def)
  have c: "dicts ?h (self_plugins ?h) = [(''sitea'', siteA)]"
    by (simp add: heap_init_def heap_setitem_def mutate_self_def)
  from get_loaded_is_copy [OF wf g]
  have "\<forall>ms. dicts (mutations ms (snd (heap_get_loaded ?h))) 1 = dicts ?h (self_plugins ?h)"
    by blast
  then have "dicts (mutations [Clear, Register ''http'' http_plugin, LoadPath site_path]
              (snd (heap_get_loaded ?h))) 1 = dicts ?h (self_plugins ?h)" by (rule spec)
  then have k: "dicts (mutations [Clear, Register ''http'' http_plugin, LoadPath site_path]
              (snd (heap_get_loaded ?h))) 1 = [(''sitea'', siteA)]" by (simp only: c)
  have "dicts (mutations [Clear, Register ''http'' http_plugin] (snd (heap_get_loaded ?h))) 0
        = [(''http'', http_plugin)]"
    by (simp add: heap_get_loaded_def new_dict_def heap_init_def heap_setitem_def heap_clear_def
        mutate_self_def)
  moreover from g have "fst (heap_get_loaded ?h) = 1" by (metis fst_conv)
  ultimately show ?thesis using k wf by blast
qed

text \<open>
  C9. \<^verbatim>\<open>close\<close> returns and does not raise, whatever the state of the stream: called any
  number of times in a row, on a stream that was never opened (there is nothing to close
  then and the stream stays as it is), after an \<^verbatim>\<open>open\<close> whether it failed or not, and
  after an earlier \<^verbatim>\<open>close\<close>. It still calls \<^verbatim>\<open>close\<close> of the response and of the stream
  handle, each time, whenever they have one, and drops what these calls raise.
\<close>

theorem close_never_raises:
  "fst (close s) = Inr ()
   \<and> (\<forall>n. fst (close_times n s) = Inr ())
   \<and> close (stream_init b) = (Inr (), stream_init b)
   \<and> fst (close (snd (open_stream env s))) = Inr ()
   \<and> fst (close (snd (close s))) = Inr ()
   \<and> (\<forall>x. res s = Some x \<and> has_close x \<longrightarrow>
         res (snd (close s)) = Some (x\<lparr>close_calls := Suc (close_calls x)\<rparr>))
   \<and> (\<forall>y. fd s = Some y \<and> has_close y \<longrightarrow>
         fd (snd (close s)) = Some (y\<lparr>close_calls := Suc (close_calls y)\<rparr>))"
proof -
  have i: "close (stream_init b) = (Inr (), stream_init b)"
    by (simp add: close_def close_attr_def stream_init_def)
  have r: "res (snd (close s)) = Some (x\<lparr>close_calls := Suc (close_calls x)\<rparr>)"
    if "res s = Some x \<and> has_close x" for x
    using that close_attr_returns [of "fd s"]
    by (auto simp: close_def close_attr_def handle_close_def except_pass_def
        split: prod.splits sum.splits option.splits)
  have f: "fd (snd (close s)) = Some (y\<lparr>close_calls := Suc (close_calls y)\<rparr>)"
    if "fd s = Some y \<and> has_close y" for y
  proof -
    obtain r1 x1 where 1: "close_attr (res s) = (r1, x1)" by (cases "close_attr (res s)")
    with close_attr_returns [of "res s"] have "r1 = Inr ()" by simp
    with 1 that show ?thesis
      by (simp add: close_def close_attr_def handle_close_def)
  qed
  from close_returns [of s] close_times_returns [of _ s] i
    close_returns [of "snd (open_stream env s)"] close_returns [of "snd (close s)"] r f
  show ?thesis by blast
qed

theorem close_never_raises_witness:
  "close \<lparr>buffered = True, fd = Some good_handle, res = Some failing_handle\<rparr>
     = (Inr (), \<lparr>buffered = True, fd = Some (good_handle\<lparr>close_calls := 1\<rparr>),
                 res = Some (failing_handle\<lparr>close_calls := 1\<rparr>)\<rparr>)
   \<and> fst (close_times 3 \<lparr>buffered = True, fd = Some good_handle, res = Some failing_handle\<rparr>)
     = Inr ()
   \<and> fst (open_stream failed_open \<lparr>buffered = True, fd = Some good_handle, res = Some failing_handle\<rparr>)
     = Inl StreamError
   \<and> fst (close (snd (open_stream failed_open
        \<lparr>buffered = True, fd = Some good_handle, res = Some failing_handle\<rparr>))) = Inr ()"
proof -
  let ?s = "\<lparr>buffered = True, fd = Some good_handle, res = Some failing_handle\<rparr>"
  note T = close_never_raises [of ?s True failed_open]
  have "res ?s = Some failing_handle \<and> has_close failing_handle"
    and "fd ?s = Some good_handle \<and> has_close good_handle"
    by (simp_all add: failing_handle_def good_handle_def)
  with T have "res (snd (close ?s)) = Some (failing_handle\<lparr>close_calls := Suc (close_calls failing_handle)\<rparr>)"
    "fd (snd (close ?s)) = Some (good_handle\<lparr>close_calls := Suc (close_calls good_handle)\<rparr>)"
    "fst (close ?s) = Inr ()" "fst (close_times 3 ?s) = Inr ()"
    "fst (close (snd (open_stream failed_open ?s))) = Inr ()" by blast+
  moreover have "buffered (snd (close ?s)) = True"
    by (simp add: close_def close_attr_def split: prod.splits sum.splits)
  moreover have "close_calls failing_handle = 0" "close_calls good_handle = 0"
    by (simp_all add: failing_handle_def good_handle_def)
  moreover have "fst (open_stream failed_open ?s) = Inl StreamError"
    by (simp add: open_stream_def failed_open_def)
  ultimately show ?thesis
    by (cases "close ?s") (auto simp: http_stream.equality)
qed

end
